theory Spec2Isabelle
  imports Complex_Main "HOL-Library.Word"
begin

section \<open>Visual monitor: the capture-diff-baseline pipeline of scripts/monitor.js\<close>

text \<open>
  The script captures a full-page screenshot of every configured URL, compares it with a
  stored baseline image, replaces the baseline when the change ratio reaches the
  configured threshold, and sends one e-mail per run. This theory embeds the functions
  \<open>diffPngs\<close> and \<open>main\<close> of the script (with the helpers \<open>main\<close> calls) as HOL
  functions and proves the properties of the specification about them.

  The browser, the PNG codec, the pixel matcher, git, zip and the mail transport are
  libraries and programs outside the repository. They are fields of the record \<open>env\<close>
  below: every definition takes the environment as a parameter, and a theorem that needs
  a property of a library states it as a hypothesis.
\<close>

subsection \<open>Buffers, raster images, JavaScript numbers\<close>

type_synonym byte = "8 word"

text \<open>A Node \<open>Buffer\<close>: the bytes of a file or of a screenshot.\<close>

type_synonym buf = "byte list"

text \<open>A pixel is the four bytes R, G, B, A of the image data.\<close>

type_synonym pixel = "byte \<times> byte \<times> byte \<times> byte"

definition blank_pixel :: pixel where
  "blank_pixel = (0, 0, 0, 0)"

text \<open>
  A decoded image (the \<open>PNG\<close> object of pngjs): \<open>width\<close>, \<open>height\<close> and \<open>data\<close>, the
  pixels row by row. The library stores four bytes per pixel in one buffer; the model keeps
  one list element per pixel, so byte offset \<open>i << 2\<close> of the source is index \<open>i\<close> here.
\<close>

record png =
  width :: nat
  height :: nat
  data :: "pixel list"

text \<open>
  What a decoded PNG file satisfies: the dimensions are positive (the PNG format has no
  image of width or height zero) and the data holds \<open>width * height\<close> pixels.
\<close>

definition wf_png :: "png \<Rightarrow> bool" where
  "wf_png img = (0 < width img \<and> 0 < height img \<and> length (data img) = width img * height img)"

text \<open>
  The JavaScript numbers the ratio can be: a finite number, \<open>Infinity\<close> or \<open>NaN\<close>. A
  finite number is modelled by the exact quotient; the rounding of the double division is
  not modelled.
\<close>

datatype jsnum = Num rat | PosInfinity | NaN

text \<open>\<open>n / d\<close> on two non-negative integers, as JavaScript evaluates it.\<close>

definition js_div :: "nat \<Rightarrow> nat \<Rightarrow> jsnum" where
  "js_div n d = (if d = 0 then (if n = 0 then NaN else PosInfinity) else Num (of_nat n / of_nat d))"

text \<open>\<open>x >= t\<close> and \<open>x < t\<close> for a finite \<open>t\<close>: every comparison with \<open>NaN\<close> is false.\<close>

fun js_ge :: "jsnum \<Rightarrow> rat \<Rightarrow> bool" where
  "js_ge (Num q) t = (t \<le> q)"
| "js_ge PosInfinity t = True"
| "js_ge NaN t = False"

fun js_lt :: "jsnum \<Rightarrow> rat \<Rightarrow> bool" where
  "js_lt (Num q) t = (q < t)"
| "js_lt PosInfinity t = False"
| "js_lt NaN t = False"

subsection \<open>The pngjs operations \<open>diffPngs\<close> uses\<close>

text \<open>
  Modelled from the spec: \<open>new PNG({ width, height })\<close> of the pngjs library, which is not
  part of the repository. The specification calls the result a zero-initialized canvas of
  that size.
\<close>

definition new_png :: "nat \<Rightarrow> nat \<Rightarrow> png" where
  "new_png w h = \<lparr> width = w, height = h, data = replicate (w * h) blank_pixel \<rparr>"

text \<open>
  Modelled from the spec: the copy of one row that \<open>bitblt\<close> performs,
  \<open>src.copy(dst, targetStart, sourceStart, sourceEnd)\<close> of a Node buffer: the elements
  \<open>sourceStart ..< sourceEnd\<close> of \<open>src\<close> overwrite \<open>dst\<close> from \<open>targetStart\<close> on, as many
  as fit; \<open>dst\<close> keeps its length.
\<close>

definition buffer_copy :: "'a list \<Rightarrow> 'a list \<Rightarrow> nat \<Rightarrow> nat \<Rightarrow> nat \<Rightarrow> 'a list" where
  "buffer_copy src dst targetStart sourceStart sourceEnd =
     (let chunk = take (sourceEnd - sourceStart) (drop sourceStart src);
          n = min (length chunk) (length dst - targetStart)
      in take targetStart dst @ take n chunk @ drop (targetStart + n) dst)"

text \<open>
  Modelled from the spec: \<open>PNG.bitblt(src, dst, 0, 0, src.width, src.height, 0, 0)\<close> of
  pngjs, which is not part of the repository: the original image is copied into the
  top-left of the canvas, one row of \<open>src\<close> after the other into the rows of \<open>dst\<close>.
\<close>

definition bitblt :: "png \<Rightarrow> png \<Rightarrow> png" where
  "bitblt src dst =
     dst \<lparr> data :=
       fold (\<lambda>y d. buffer_copy (data src) d (y * width dst) (y * width src) (y * width src + width src))
         [0 ..< height src] (data dst) \<rparr>"

subsection \<open>The pixel matcher\<close>

text \<open>
  \<open>pixelmatch(img1, img2, output, width, height, {threshold, includeAA})\<close> is a library
  function: it fills the output image and returns the number of differing pixels. Its
  type in the model: the two pixel lists, the width, the height, the threshold and
  \<open>includeAA\<close> give the output pixels and the count.
\<close>

type_synonym matcher = "pixel list \<Rightarrow> pixel list \<Rightarrow> nat \<Rightarrow> nat \<Rightarrow> rat \<Rightarrow> bool \<Rightarrow> pixel list \<times> nat"

text \<open>
  The one property of the matcher the theorems below assume: it counts only positions at
  which the two images hold different pixels. (The library counts a pixel when its colour
  distance exceeds the tolerance and the pixel is not anti-aliasing; equal pixels have
  distance zero.)
\<close>

definition matcher_sound :: "matcher \<Rightarrow> bool" where
  "matcher_sound pm =
     (\<forall>a b w h t aa. snd (pm a b w h t aa) \<le> length (filter (\<lambda>(p, q). p \<noteq> q) (zip a b)))"

definition channel_delta :: "byte \<Rightarrow> byte \<Rightarrow> nat" where
  "channel_delta x y = (if unat y \<le> unat x then unat x - unat y else unat y - unat x)"

fun pixels_differ :: "rat \<Rightarrow> pixel \<times> pixel \<Rightarrow> bool" where
  "pixels_differ t ((r1, g1, b1, a1), (r2, g2, b2, a2)) =
     (\<bar>t\<bar> * 255 < of_nat (max (max (channel_delta r1 r2) (channel_delta g1 g2))
                            (max (channel_delta b1 b2) (channel_delta a1 a2))))"

text \<open>
  Modelled from the spec: a matcher in the words of the specification, a per-pixel
  difference with a per-channel tolerance, for the concrete runs below. The pixelmatch
  library is not part of the repository; the exclusion of anti-aliasing is not modelled.
  A differing pixel is drawn red in the output, any other pixel is left blank.
\<close>

definition pixelmatch_ref :: matcher where
  "pixelmatch_ref img1 img2 w h t aa =
     (map (\<lambda>pq. if pixels_differ t pq then (255, 0, 0, 255) else blank_pixel) (zip img1 img2),
      length (filter (pixels_differ t) (zip img1 img2)))"

subsection \<open>Files, the environment and the state of a run\<close>

text \<open>
  The files the run touches, by directory: \<open>baselines/\<close>, \<open>.tmp/run/\<close>, \<open>.tmp/diffs/\<close>
  and \<open>.tmp/\<close> itself. The argument is the file name inside the directory. A slug holds
  letters, digits and dashes only, so a file name built from it never leaves its
  directory, and paths of different directories are different files.
\<close>

datatype path = InBaselines string | InRun string | InDiffs string | InTmp string

datatype error =
    InvalidUrl string
  | WriteFailed path
  | ReadFailed path
  | DecodeFailed
  | GitFailed
  | ReaddirFailed
  | ZipFailed
  | StatFailed path
  | MissingEnvVar
  | MailgunSendFailed

text \<open>An entry of \<open>changes\<close>: \<open>{url, note}\<close> or \<open>{url, ratio, diffPixels, totalPixels}\<close>.\<close>

datatype change = Note string string | Diff string jsnum nat nat

text \<open>An attachment \<open>{name, path}\<close>, and the e-mail handed to the transport.\<close>

type_synonym attachment = "string \<times> path"

record mail =
  subject :: string
  body :: string
  attachments :: "attachment list"

text \<open>
  What the run does to the world outside the file system, in the order it happens: the
  three shutdown calls, the call of \<open>gitCommitIfNeeded\<close> with its message, and the POST of
  the e-mail to the transport.
\<close>

datatype event = PageClosed | ContextClosed | BrowserClosed | CommitStep string | Dispatched mail

text \<open>
  The environment: the libraries and programs the script calls.
  \<^item> \<open>safeSlug\<close>: the slug of a URL (the URL parser and SHA-1 of the platform); \<open>None\<close>
    when \<open>new URL(url)\<close> throws.
  \<^item> \<open>captureFullPage\<close>: the screenshot of a URL at a viewport, or the message of the
    error the browser raised.
  \<^item> \<open>write_fails\<close>, \<open>read_fails\<close>: the files the file system refuses to write or read.
  \<^item> \<open>pngFromBuffer\<close>, \<open>pngToBuffer\<close>: the PNG codec; decoding a corrupt buffer throws.
  \<^item> \<open>pixelmatch\<close>: the pixel matcher.
  \<^item> \<open>git_fails\<close>: whether a git command of the commit step fails, by commit message.
  \<^item> \<open>readdir\<close>: the listing of \<open>.tmp/diffs/\<close>, in the order the platform returns it.
  \<^item> \<open>zip_archive\<close>: the archive the zip program makes of \<open>.tmp/diffs/\<close>; \<open>None\<close> when it
    fails.
  \<^item> \<open>mail_env\<close>: the required environment variables of the transport are all set.
  \<^item> \<open>mailgun_ok\<close>: the transport answers the POST with a success status.
  \<^item> \<open>toFixed\<close>: \<open>Number.prototype.toFixed\<close>.
\<close>

record env =
  safeSlug :: "string \<Rightarrow> string option"
  captureFullPage :: "string \<Rightarrow> nat \<times> nat \<Rightarrow> string + buf"
  write_fails :: "path \<Rightarrow> bool"
  read_fails :: "path \<Rightarrow> bool"
  pngFromBuffer :: "buf \<Rightarrow> png option"
  pngToBuffer :: "png \<Rightarrow> buf"
  pixelmatch :: matcher
  git_fails :: "string \<Rightarrow> bool"
  readdir :: "(path \<Rightarrow> buf option) \<Rightarrow> string list option"
  zip_archive :: "(path \<Rightarrow> buf option) \<Rightarrow> buf option"
  mail_env :: bool
  mailgun_ok :: "mail \<Rightarrow> bool"
  toFixed :: "nat \<Rightarrow> jsnum \<Rightarrow> string"

text \<open>The configuration document \<open>monitor.config.json\<close>.\<close>

record config =
  urls :: "string list"
  viewport :: "nat \<times> nat"
  pixelmatchThreshold :: rat
  changeThresholdRatio :: rat
  attachMaxPngs :: "nat option"
  maxAttachmentBytes :: "nat option"

text \<open>
  The state of a run: the file system, the two locals \<open>changes\<close> and \<open>seededBaselines\<close> of
  \<open>main\<close>, and the events so far.
\<close>

record run_state =
  files :: "path \<Rightarrow> buf option"
  changes :: "change list"
  seededBaselines :: nat
  events :: "event list"

text \<open>
  A step of the run returns its value or the error it threw, together with the state at
  that moment.
\<close>

type_synonym 'a io = "(error + 'a) \<times> run_state"

subsection \<open>The image differ\<close>

text \<open>The inner function \<open>padTo\<close> of \<open>diffPngs\<close>; \<open>w\<close> and \<open>h\<close> are the canvas size.\<close>

definition padTo :: "nat \<Rightarrow> nat \<Rightarrow> png \<Rightarrow> png" where
  "padTo w h img = (if width img = w \<and> height img = h then img else bitblt img (new_png w h))"

record diff_result =
  diffBuf :: buf
  diffPixels :: nat
  totalPixels :: nat
  ratio :: jsnum

definition diffPngs :: "env \<Rightarrow> buf \<Rightarrow> buf \<Rightarrow> rat \<Rightarrow> error + diff_result" where
  "diffPngs e baselineBuf currentBuf threshold =
     (case pngFromBuffer e baselineBuf of
        None \<Rightarrow> Inl DecodeFailed
      | Some img1 \<Rightarrow>
     (case pngFromBuffer e currentBuf of
        None \<Rightarrow> Inl DecodeFailed
      | Some img2 \<Rightarrow>
          (let w = max (width img1) (width img2);
               h = max (height img1) (height img2);
               a = padTo w h img1;
               b = padTo w h img2;
               (out, n) = pixelmatch e (data a) (data b) w h threshold False;
               total = w * h
           in Inr \<lparr> diffBuf = pngToBuffer e ((new_png w h) \<lparr> data := out \<rparr>),
                    diffPixels = n,
                    totalPixels = total,
                    ratio = js_div n total \<rparr>)))"

text \<open>
  The one property of the decoder the theorems below assume: an image it returns is a
  well-formed image.
\<close>

definition codec_wf :: "env \<Rightarrow> bool" where
  "codec_wf e = (\<forall>b img. pngFromBuffer e b = Some img \<longrightarrow> wf_png img)"

subsection \<open>File operations\<close>

definition fileExists :: "path \<Rightarrow> run_state \<Rightarrow> bool" where
  "fileExists p st = (files st p \<noteq> None)"

text \<open>
  \<open>writeFileAtomic\<close> writes a temporary file and renames it over the target: the target
  holds the old contents or the new ones, never a part. When either call fails the error
  propagates and the target is as it was.
\<close>

definition writeFileAtomic :: "env \<Rightarrow> path \<Rightarrow> buf \<Rightarrow> run_state \<Rightarrow> unit io" where
  "writeFileAtomic e filePath b st =
     (if write_fails e filePath then (Inl (WriteFailed filePath), st)
      else (Inr (), st \<lparr> files := (files st)(filePath \<mapsto> b) \<rparr>))"

text \<open>\<open>fsp.readFile\<close>: the contents, or an error when the file is missing or unreadable.\<close>

definition readFile :: "env \<Rightarrow> path \<Rightarrow> run_state \<Rightarrow> error + buf" where
  "readFile e p st =
     (if read_fails e p then Inl (ReadFailed p)
      else (case files st p of None \<Rightarrow> Inl (ReadFailed p) | Some b \<Rightarrow> Inr b))"

text \<open>\<open>(await fsp.stat(p)).size\<close>.\<close>

definition stat_size :: "path \<Rightarrow> run_state \<Rightarrow> error + nat" where
  "stat_size p st = (case files st p of None \<Rightarrow> Inl (StatFailed p) | Some b \<Rightarrow> Inr (length b))"

subsection \<open>The run orchestrator: one target\<close>

text \<open>
  The terminal states of the specification's per-target state machine. The script has no
  such value: the model returns the one that names the branch the loop body took.
\<close>

datatype outcome = Failed | Seeded | Unchanged | Changed

text \<open>
  The end of the loop body of \<open>main\<close>, from the read of the baseline on: the comparison,
  the decision \<open>ratio >= changeThresholdRatio\<close> and the updates of a change.
\<close>

definition compareWithBaseline :: "env \<Rightarrow> config \<Rightarrow> string \<Rightarrow> string \<Rightarrow> buf \<Rightarrow> run_state \<Rightarrow> outcome io" where
  "compareWithBaseline e cfg url slug currentBuf st =
     (let baselinePath = InBaselines (slug @ ''.png'');
          diffPath = InDiffs (slug @ ''.diff.png'')
      in case readFile e baselinePath st of
           Inl err \<Rightarrow> (Inl err, st)
         | Inr baselineBuf \<Rightarrow>
        (case diffPngs e baselineBuf currentBuf (pixelmatchThreshold cfg) of
           Inl err \<Rightarrow> (Inl err, st)
         | Inr d \<Rightarrow>
             if js_ge (ratio d) (changeThresholdRatio cfg) then
               (case writeFileAtomic e diffPath (diffBuf d) st of
                  (Inl err, st1) \<Rightarrow> (Inl err, st1)
                | (Inr _, st1) \<Rightarrow>
                    (let st2 = st1 \<lparr> changes := changes st1 @
                                 [Diff url (ratio d) (diffPixels d) (totalPixels d)] \<rparr>
                     in case writeFileAtomic e baselinePath currentBuf st2 of
                          (Inl err, st3) \<Rightarrow> (Inl err, st3)
                        | (Inr _, st3) \<Rightarrow> (Inr Changed, st3)))
             else (Inr Unchanged, st)))"

text \<open>The loop body of \<open>main\<close> for one URL.\<close>

definition processTarget :: "env \<Rightarrow> config \<Rightarrow> string \<Rightarrow> run_state \<Rightarrow> outcome io" where
  "processTarget e cfg url st =
     (case safeSlug e url of
        None \<Rightarrow> (Inl (InvalidUrl url), st)
      | Some slug \<Rightarrow>
     (let baselinePath = InBaselines (slug @ ''.png'');
          currentPath = InRun (slug @ ''.png'')
      in case captureFullPage e url (viewport cfg) of
           Inl msg \<Rightarrow>
             (Inr Failed, st \<lparr> changes := changes st @ [Note url (''CAPTURE FAILED: '' @ msg)] \<rparr>)
         | Inr currentBuf \<Rightarrow>
        (case writeFileAtomic e currentPath currentBuf st of
           (Inl err, st1) \<Rightarrow> (Inl err, st1)
         | (Inr _, st1) \<Rightarrow>
             if \<not> fileExists baselinePath st1 then
               (case writeFileAtomic e baselinePath currentBuf st1 of
                  (Inl err, st2) \<Rightarrow> (Inl err, st2)
                | (Inr _, st2) \<Rightarrow>
                    (Inr Seeded, st2 \<lparr> seededBaselines := seededBaselines st2 + 1 \<rparr>))
             else compareWithBaseline e cfg url slug currentBuf st1)))"

text \<open>The loop \<open>for (const url of urls)\<close>: an error of a body ends the loop and the run.\<close>

fun runTargets :: "env \<Rightarrow> config \<Rightarrow> string list \<Rightarrow> run_state \<Rightarrow> unit io" where
  "runTargets e cfg [] st = (Inr (), st)"
| "runTargets e cfg (url # rest) st =
     (case processTarget e cfg url st of
        (Inl err, st1) \<Rightarrow> (Inl err, st1)
      | (Inr _, st1) \<Rightarrow> runTargets e cfg rest st1)"

subsection \<open>Strings of the commit message and of the e-mail\<close>

text \<open>A non-negative integer in a template literal: its decimal digits.\<close>

definition digit_char :: "nat \<Rightarrow> char" where
  "digit_char d = ''0123456789'' ! (d mod 10)"

function string_of_nat :: "nat \<Rightarrow> string" where
  "string_of_nat n = (if n < 10 then [digit_char n] else string_of_nat (n div 10) @ [digit_char n])"
  by pat_completeness auto
termination
  by (relation "measure (\<lambda>n. n)") auto

declare string_of_nat.simps [simp del]

text \<open>\<open>s.endsWith(suffix)\<close> and \<open>parts.join(sep)\<close>.\<close>

definition endsWith :: "string \<Rightarrow> string \<Rightarrow> bool" where
  "endsWith s suffix = (length suffix \<le> length s \<and> drop (length s - length suffix) s = suffix)"

fun join :: "string \<Rightarrow> string list \<Rightarrow> string" where
  "join sep [] = []"
| "join sep [x] = x"
| "join sep (x # y # ys) = x @ sep @ join sep (y # ys)"

text \<open>\<open>x * 100\<close> on a JavaScript number.\<close>

fun js_times :: "jsnum \<Rightarrow> rat \<Rightarrow> jsnum" where
  "js_times (Num q) k = Num (q * k)"
| "js_times PosInfinity k = PosInfinity"
| "js_times NaN k = NaN"

definition bytes :: "env \<Rightarrow> nat \<Rightarrow> string" where
  "bytes e n =
     (if n < 1024 then string_of_nat n @ '' B''
      else if n < 1024 * 1024 then toFixed e 1 (js_div n 1024) @ '' KB''
      else toFixed e 1 (js_div n (1024 * 1024)) @ '' MB'')"

subsection \<open>After the loop: shutdown, commit step, notification\<close>

text \<open>
  \<open>gitCommitIfNeeded(message)\<close>: the call is an event; git itself (status, add, commit,
  push) is outside the model, and a failing git command throws.
\<close>

definition gitCommitIfNeeded :: "env \<Rightarrow> string \<Rightarrow> run_state \<Rightarrow> unit io" where
  "gitCommitIfNeeded e message st =
     (let st1 = st \<lparr> events := events st @ [CommitStep message] \<rparr>
      in if git_fails e message then (Inl GitFailed, st1) else (Inr (), st1))"

text \<open>The message \<open>msg\<close> of \<open>main\<close>.\<close>

definition commitMessage :: "run_state \<Rightarrow> string" where
  "commitMessage st =
     (if 0 < seededBaselines st \<and> length (changes st) = 0
      then ''Seed baselines ('' @ string_of_nat (seededBaselines st) @ '')''
      else ''Update baselines ('' @ string_of_nat (length (changes st)) @ '' change(s))'')"

definition createZip :: "env \<Rightarrow> path \<Rightarrow> run_state \<Rightarrow> unit io" where
  "createZip e outZipPath st =
     (case zip_archive e (files st) of
        None \<Rightarrow> (Inl ZipFailed, st)
      | Some z \<Rightarrow> (Inr (), st \<lparr> files := (files st)(outZipPath \<mapsto> z) \<rparr>))"

text \<open>
  The loop \<open>for (const f of diffFilesAll.slice(0, maxPngs))\<close>: the accumulator is the pair
  of \<open>attachments\<close> and \<open>attachmentBytes\<close>; \<open>break\<close> returns it.
\<close>

fun attachPngs :: "run_state \<Rightarrow> nat \<Rightarrow> string list \<Rightarrow> attachment list \<times> nat \<Rightarrow> error + attachment list \<times> nat" where
  "attachPngs st maxBytes [] acc = Inr acc"
| "attachPngs st maxBytes (f # fs) (atts, attachmentBytes) =
     (case stat_size (InDiffs f) st of
        Inl err \<Rightarrow> Inl err
      | Inr sz \<Rightarrow>
          if maxBytes < attachmentBytes + sz then Inr (atts, attachmentBytes)
          else attachPngs st maxBytes fs (atts @ [(f, InDiffs f)], attachmentBytes + sz))"

text \<open>
  The attachment set of \<open>main\<close>: \<open>attachments\<close> and \<open>attachmentBytes\<close> after the block
  that lists \<open>.tmp/diffs/\<close>.
\<close>

definition buildAttachments :: "env \<Rightarrow> config \<Rightarrow> run_state \<Rightarrow> (attachment list \<times> nat) io" where
  "buildAttachments e cfg st =
     (let maxPngs = (case attachMaxPngs cfg of None \<Rightarrow> 6 | Some k \<Rightarrow> k);
          maxBytes = (case maxAttachmentBytes cfg of None \<Rightarrow> 20000000 | Some b \<Rightarrow> b)
      in case readdir e (files st) of
           None \<Rightarrow> (Inl ReaddirFailed, st)
         | Some names \<Rightarrow>
             (let diffFilesAll = filter (\<lambda>f. endsWith f ''.diff.png'') names;
                  zipPath = InTmp ''diffs.zip''
              in if diffFilesAll = [] then (Inr ([], 0), st)
                 else
                   (case createZip e zipPath st of
                      (Inl err, st1) \<Rightarrow> (Inl err, st1)
                    | (Inr _, st1) \<Rightarrow>
                        (case stat_size zipPath st1 of
                           Inl err \<Rightarrow> (Inl err, st1)
                         | Inr zipSize \<Rightarrow>
                             (case attachPngs st1 maxBytes (take maxPngs diffFilesAll)
                                     ([(''diffs.zip'', zipPath)], zipSize) of
                                Inl err \<Rightarrow> (Inl err, st1)
                              | Inr r \<Rightarrow> (Inr r, st1))))))"

text \<open>The body of the e-mail: \<open>lines.join("\n")\<close>.\<close>

fun changeLines :: "env \<Rightarrow> change \<Rightarrow> string list" where
  "changeLines e (Note url note) = [''- '' @ url, ''  '' @ note]"
| "changeLines e (Diff url r dp tp) =
     [''- '' @ url,
      ''  Diff ratio: '' @ toFixed e 3 (js_times r 100) @ ''% ('' @ string_of_nat dp @ ''/'' @
        string_of_nat tp @ '')'']"

definition bodyLines :: "env \<Rightarrow> change list \<Rightarrow> attachment list \<Rightarrow> nat \<Rightarrow> string list" where
  "bodyLines e chs atts attachmentBytes =
     [''Visual change detected ('' @ string_of_nat (length chs) @ '' URL(s)).'', []] @
     concat (map (changeLines e) chs) @
     [[]] @
     [if atts \<noteq> []
      then ''Attachments: '' @ join '', '' (map fst atts) @ '' (total '' @ bytes e attachmentBytes @ '')''
      else ''No diff images were generated (capture failures only).'']"

text \<open>
  \<open>sendMailgunEmail\<close>: the required environment variables are read first, then every
  attachment is read, then the message is posted (the event \<open>Dispatched\<close>); a response
  that is not a success throws.
\<close>

fun readAttachments :: "env \<Rightarrow> attachment list \<Rightarrow> run_state \<Rightarrow> error option" where
  "readAttachments e [] st = None"
| "readAttachments e ((name, p) # rest) st =
     (case readFile e p st of Inl err \<Rightarrow> Some err | Inr _ \<Rightarrow> readAttachments e rest st)"

definition sendMailgunEmail :: "env \<Rightarrow> mail \<Rightarrow> run_state \<Rightarrow> unit io" where
  "sendMailgunEmail e m st =
     (if \<not> mail_env e then (Inl MissingEnvVar, st)
      else (case readAttachments e (attachments m) st of
              Some err \<Rightarrow> (Inl err, st)
            | None \<Rightarrow>
                (let st1 = st \<lparr> events := events st @ [Dispatched m] \<rparr>
                 in if mailgun_ok e m then (Inr (), st1) else (Inl MailgunSendFailed, st1))))"

text \<open>The notification: the part of \<open>main\<close> after \<open>if (!changes.length) return\<close>.\<close>

definition notify :: "env \<Rightarrow> config \<Rightarrow> run_state \<Rightarrow> unit io" where
  "notify e cfg st =
     (case buildAttachments e cfg st of
        (Inl err, st1) \<Rightarrow> (Inl err, st1)
      | (Inr (atts, attachmentBytes), st1) \<Rightarrow>
          sendMailgunEmail e
            \<lparr> subject = ''Milltech visual change detected ('' @ string_of_nat (length (changes st1)) @ '')'',
              body = join [CHR 0x0A] (bodyLines e (changes st1) atts attachmentBytes),
              attachments = atts \<rparr>
            st1)"

text \<open>The part of \<open>main\<close> after the shutdown of the browser.\<close>

definition finishRun :: "env \<Rightarrow> config \<Rightarrow> run_state \<Rightarrow> unit io" where
  "finishRun e cfg st =
     (case (if 0 < seededBaselines st \<or> 0 < length (changes st)
            then gitCommitIfNeeded e (commitMessage st) st
            else (Inr (), st)) of
        (Inl err, st1) \<Rightarrow> (Inl err, st1)
      | (Inr _, st1) \<Rightarrow> if length (changes st1) = 0 then (Inr (), st1) else notify e cfg st1)"

text \<open>
  \<open>page.close()\<close>, \<open>context.close()\<close>, \<open>browser.close()\<close>: three statements after the loop.
\<close>

definition shutdown :: "run_state \<Rightarrow> run_state" where
  "shutdown st = st \<lparr> events := events st @ [PageClosed, ContextClosed, BrowserClosed] \<rparr>"

text \<open>The state \<open>main\<close> starts the loop in: no change, no seeded baseline, no event.\<close>

definition initial_state :: "(path \<Rightarrow> buf option) \<Rightarrow> run_state" where
  "initial_state fs = \<lparr> files = fs, changes = [], seededBaselines = 0, events = [] \<rparr>"

text \<open>
  \<open>main\<close>, from the first target on, started on the file system \<open>fs\<close>: the loop, the
  shutdown, the commit step and the notification. Reading the configuration, creating the
  directories and launching the browser come before and are taken to have succeeded.
\<close>

definition main :: "env \<Rightarrow> config \<Rightarrow> (path \<Rightarrow> buf option) \<Rightarrow> unit io" where
  "main e cfg fs =
     (case runTargets e cfg (urls cfg) (initial_state fs) of
        (Inl err, st) \<Rightarrow> (Inl err, st)
      | (Inr _, st) \<Rightarrow> finishRun e cfg (shutdown st))"

text \<open>The notifications of a run: the e-mails posted to the transport.\<close>

definition notifications :: "run_state \<Rightarrow> mail list" where
  "notifications st = concat (map (\<lambda>ev. case ev of Dispatched m \<Rightarrow> [m] | _ \<Rightarrow> []) (events st))"

subsection \<open>A concrete environment\<close>

text \<open>
  The concrete runs below need a codec, images and an environment. The codec is a raw
  format: the width, the height, then four bytes per pixel. In the environment every
  capture fails and every file operation succeeds; a run changes the fields it needs.
\<close>

fun pixels_of :: "byte list \<Rightarrow> pixel list" where
  "pixels_of (r # g # b # a # rest) = (r, g, b, a) # pixels_of rest"
| "pixels_of _ = []"

fun bytes_of :: "pixel list \<Rightarrow> byte list" where
  "bytes_of [] = []"
| "bytes_of ((r, g, b, a) # rest) = r # g # b # a # bytes_of rest"

definition raw_decode :: "buf \<Rightarrow> png option" where
  "raw_decode b =
     (case b of
        w # h # rest \<Rightarrow>
          if 0 < unat w \<and> 0 < unat h \<and> length rest = 4 * (unat w * unat h)
          then Some \<lparr> width = unat w, height = unat h, data = pixels_of rest \<rparr>
          else None
      | _ \<Rightarrow> None)"

definition raw_encode :: "png \<Rightarrow> buf" where
  "raw_encode img = of_nat (width img) # of_nat (height img) # bytes_of (data img)"

definition grey :: "byte \<Rightarrow> byte list" where
  "grey g = [g, g, g, 255]"

text \<open>
  Images of width 1: one pixel; two pixels; two pixels, the second one blank; and two
  images of three pixels that differ in the last one.
\<close>

definition img_1x1 :: buf where
  "img_1x1 = [1, 1] @ grey 9"

definition img_1x2 :: buf where
  "img_1x2 = [1, 2] @ grey 9 @ grey 200"

definition img_1x2_blank :: buf where
  "img_1x2_blank = [1, 2] @ grey 9 @ [0, 0, 0, 0]"

definition img_1x3 :: buf where
  "img_1x3 = [1, 3] @ grey 9 @ grey 200 @ grey 9"

definition img_1x3_new :: buf where
  "img_1x3_new = [1, 3] @ grey 9 @ grey 200 @ grey 77"

text \<open>
  The environment of the concrete runs: the page \<open>a\<close> renders as \<open>img_1x2\<close>, the page \<open>b\<close> as
  \<open>img_1x3_new\<close>, every other capture times out; the slug of a URL is the URL; no file
  operation, git command or send fails; the directory listing is sorted by name; the
  archive has 22 bytes.
\<close>

definition demo_env :: env where
  "demo_env =
     \<lparr> safeSlug = Some,
       captureFullPage = (\<lambda>url v. if url = ''a'' then Inr img_1x2
                                   else if url = ''b'' then Inr img_1x3_new
                                   else Inl ''Timeout 60000ms exceeded''),
       write_fails = (\<lambda>p. False),
       read_fails = (\<lambda>p. False),
       pngFromBuffer = raw_decode,
       pngToBuffer = raw_encode,
       pixelmatch = pixelmatch_ref,
       git_fails = (\<lambda>m. False),
       readdir = (\<lambda>fs. Some (filter (\<lambda>f. fs (InDiffs f) \<noteq> None) [''a.diff.png'', ''b.diff.png''])),
       zip_archive = (\<lambda>fs. Some (replicate 22 0)),
       mail_env = True,
       mailgun_ok = (\<lambda>m. True),
       toFixed = (\<lambda>digits x. ''0'') \<rparr>"

definition demo_cfg :: config where
  "demo_cfg =
     \<lparr> urls = [''a''], viewport = (1280, 720), pixelmatchThreshold = 1 / 10,
       changeThresholdRatio = 1 / 2, attachMaxPngs = None, maxAttachmentBytes = None \<rparr>"

text \<open>
  Whether an entry of the report is a capture failure.
\<close>

fun is_note :: "change \<Rightarrow> bool" where
  "is_note (Note url note) = True"
| "is_note (Diff url r dp tp) = False"

text \<open>
  Further runs. \<open>busy_cfg\<close>: three targets, listed as \<open>b\<close>, \<open>a\<close>, \<open>down\<close>, a threshold of 1/4
  and at most one image beside the archive; \<open>busy_files\<close> holds the baselines of \<open>a\<close> and
  \<open>b\<close>. \<open>down_cfg\<close>: two targets whose captures time out. \<open>disk_full_env\<close>: the
  environment in which the baseline of \<open>a\<close> cannot be written.
\<close>

definition busy_cfg :: config where
  "busy_cfg = demo_cfg \<lparr> urls := [''b'', ''a'', ''down''], changeThresholdRatio := 1 / 4,
                         attachMaxPngs := Some 1 \<rparr>"

definition busy_files :: "path \<Rightarrow> buf option" where
  "busy_files = [InBaselines ''a.png'' \<mapsto> img_1x1, InBaselines ''b.png'' \<mapsto> img_1x3]"

definition down_cfg :: config where
  "down_cfg = demo_cfg \<lparr> urls := [''down'', ''gone''] \<rparr>"

definition disk_full_env :: env where
  "disk_full_env = demo_env \<lparr> write_fails := (\<lambda>p. p = InBaselines ''a.png'') \<rparr>"

text \<open>
  The size of a file of \<open>.tmp/diffs/\<close>, by name, for the statements about the byte budget.
\<close>

definition file_size :: "run_state \<Rightarrow> string \<Rightarrow> nat" where
  "file_size st f = (case files st (InDiffs f) of None \<Rightarrow> 0 | Some b \<Rightarrow> length b)"

text \<open>
  \<open>tight_cfg\<close>: \<open>busy_cfg\<close> with a byte budget of 10. \<open>busy_state\<close>: the state after the loop
  of the run of \<open>busy_cfg\<close> on \<open>busy_files\<close>: both pages have changed, the third capture has
  failed.
\<close>

definition tight_cfg :: config where
  "tight_cfg = busy_cfg \<lparr> maxAttachmentBytes := Some 10 \<rparr>"

definition busy_state :: run_state where
  "busy_state =
     \<lparr> files = busy_files
         (InRun ''b.png'' \<mapsto> img_1x3_new,
          InDiffs ''b.diff.png'' \<mapsto> [1, 3, 0, 0, 0, 0, 0, 0, 0, 0, 255, 0, 0, 255],
          InBaselines ''b.png'' \<mapsto> img_1x3_new,
          InRun ''a.png'' \<mapsto> img_1x2,
          InDiffs ''a.diff.png'' \<mapsto> [1, 2, 0, 0, 0, 0, 255, 0, 0, 255],
          InBaselines ''a.png'' \<mapsto> img_1x2),
       changes = [Diff ''b'' (Num (1 / 3)) 1 3, Diff ''a'' (Num (1 / 2)) 1 2,
                  Note ''down'' ''CAPTURE FAILED: Timeout 60000ms exceeded''],
       seededBaselines = 0,
       events = [] \<rparr>"


section \<open>Properties\<close>

subsection \<open>Copying an image onto the canvas\<close>

lemma buffer_copy_length: "length (buffer_copy src dst t s e) = length dst"
  by (auto simp: buffer_copy_def Let_def min_def)

lemma buffer_copy_nth:
  assumes "s \<le> e" "e \<le> length src" "t + (e - s) \<le> length dst" "i < length dst"
  shows "buffer_copy src dst t s e ! i = (if t \<le> i \<and> i < t + (e - s) then src ! (s + (i - t)) else dst ! i)"
proof -
  define chunk where "chunk = take (e - s) (drop s src)"
  have len: "length chunk = e - s"
    using assms by (simp add: chunk_def)
  have n: "min (length chunk) (length dst - t) = e - s"
    using assms len by linarith
  have tk: "take (e - s) chunk = chunk"
    using len by simp
  have eq: "buffer_copy src dst t s e = take t dst @ chunk @ drop (t + (e - s)) dst"
    unfolding buffer_copy_def Let_def chunk_def [symmetric] n tk by (rule refl)
  have lt: "length (take t dst) = t" using assms by simp
  consider "i < t" | "t \<le> i" "i < t + (e - s)" | "t + (e - s) \<le> i" by linarith
  then show ?thesis
  proof cases
    case 1
    then show ?thesis using assms by (simp add: eq nth_append)
  next
    case 2
    then have it: "i - t < length chunk" "\<not> i < length (take t dst)"
      using len lt by linarith+
    have "(take t dst @ chunk @ drop (t + (e - s)) dst) ! i = (chunk @ drop (t + (e - s)) dst) ! (i - t)"
      using it(2) lt by (simp only: nth_append if_False)
    also have "\<dots> = chunk ! (i - t)"
      using it(1) by (simp only: nth_append if_True)
    also have "\<dots> = src ! (s + (i - t))"
      using assms it(1) len by (simp add: chunk_def)
    finally show ?thesis using 2 by (simp only: eq if_True simp_thms)
  next
    case 3
    then have it: "\<not> i - t < length chunk" "\<not> i < length (take t dst)" "\<not> (t \<le> i \<and> i < t + (e - s))"
      using len lt by linarith+
    have "(take t dst @ chunk @ drop (t + (e - s)) dst) ! i = (chunk @ drop (t + (e - s)) dst) ! (i - t)"
      using it(2) lt by (simp only: nth_append if_False)
    also have "\<dots> = drop (t + (e - s)) dst ! (i - t - (e - s))"
      using it(1) len by (simp only: nth_append if_False)
    also have "\<dots> = dst ! (t + (e - s) + (i - t - (e - s)))"
      using assms by (intro nth_drop) simp
    also have "t + (e - s) + (i - t - (e - s)) = i" using 3 by linarith
    finally show ?thesis unfolding eq if_not_P [OF it(3)] .
  qed
qed

lemma row_index:
  assumes "0 < (W::nat)" "w \<le> W"
  shows "(k * W \<le> i \<and> i < k * W + w) = (i div W = k \<and> i mod W < w)"
proof
  assume a: "k * W \<le> i \<and> i < k * W + w"
  then obtain r where r: "i = k * W + r" "r < w"
    by (metis add_diff_inverse_nat less_diff_conv2 linorder_not_less nat_add_left_cancel_less)
  with assms show "i div W = k \<and> i mod W < w" by simp
next
  assume b: "i div W = k \<and> i mod W < w"
  have "i = (i div W) * W + i mod W" by simp
  with b show "k * W \<le> i \<and> i < k * W + w"
    by (metis le_add1 nat_add_left_cancel_less)
qed

lemma bitblt_rows:
  fixes src :: "'a list"
  assumes "length src = w * h" "length dst = W * H" "w \<le> W" "h \<le> H" "k \<le> h"
  shows "length (fold (\<lambda>y d. buffer_copy src d (y * W) (y * w) (y * w + w)) [0 ..< k] dst) = W * H \<and>
         (\<forall>i < W * H. fold (\<lambda>y d. buffer_copy src d (y * W) (y * w) (y * w + w)) [0 ..< k] dst ! i =
            (if i div W < k \<and> i mod W < w then src ! ((i div W) * w + i mod W) else dst ! i))"
  using assms(5)
proof (induction k)
  case 0
  then show ?case using assms by simp
next
  case (Suc k)
  let ?f = "\<lambda>y d. buffer_copy src d (y * W) (y * w) (y * w + w)"
  let ?d = "fold ?f [0 ..< k] dst"
  from Suc have IH: "length ?d = W * H"
    "\<And>i. i < W * H \<Longrightarrow> ?d ! i = (if i div W < k \<and> i mod W < w then src ! ((i div W) * w + i mod W) else dst ! i)"
    by auto
  have step: "fold ?f [0 ..< Suc k] dst = buffer_copy src ?d (k * W) (k * w) (k * w + w)"
    by simp
  have kh: "Suc k \<le> h" using Suc by simp
  have e1: "k * w + w \<le> length src"
    using kh assms(1) by (metis mult_Suc mult_le_mono1 add.commute mult.commute)
  have e2: "k * W + (k * w + w - k * w) \<le> length ?d"
  proof -
    have "k * W + w \<le> Suc k * W" using assms(3) by simp
    also have "\<dots> \<le> H * W" using kh assms(4) by (meson le_trans mult_le_mono1)
    finally show ?thesis using IH(1) by (simp add: mult.commute)
  qed
  show ?case
  proof (intro conjI allI impI)
    show "length (fold ?f [0 ..< Suc k] dst) = W * H"
      unfolding step by (simp add: buffer_copy_length IH(1))
  next
    fix i assume i: "i < W * H"
    then have W0: "0 < W" by (cases W) auto
    have "fold ?f [0 ..< Suc k] dst ! i =
          (if k * W \<le> i \<and> i < k * W + w then src ! (k * w + (i - k * W)) else ?d ! i)"
      unfolding step using buffer_copy_nth [of "k * w" "k * w + w" src "k * W" ?d i] e1 e2 i IH(1)
      by simp
    also have "\<dots> = (if i div W = k \<and> i mod W < w then src ! (k * w + i mod W) else ?d ! i)"
    proof (cases "i div W = k \<and> i mod W < w")
      case True
      then have "k * W \<le> i \<and> i < k * W + w" using row_index [OF W0 assms(3)] by blast
      moreover have "i - k * W = i mod W" using True
        by (metis add_diff_cancel_left' div_mult_mod_eq)
      ultimately show ?thesis using True by simp
    next
      case False
      then have nA: "\<not> (k * W \<le> i \<and> i < k * W + w)" using row_index [OF W0 assms(3)] by blast
      show ?thesis unfolding if_not_P [OF nA] if_not_P [OF False] by (rule refl)
    qed
    also have "\<dots> = (if i div W < Suc k \<and> i mod W < w then src ! ((i div W) * w + i mod W) else dst ! i)"
      using IH(2) [OF i] by (auto simp: less_Suc_eq)
    finally show "fold ?f [0 ..< Suc k] dst ! i =
        (if i div W < Suc k \<and> i mod W < w then src ! ((i div W) * w + i mod W) else dst ! i)" .
  qed
qed


lemma padTo_dims: "width (padTo W H img) = W \<and> height (padTo W H img) = H"
  by (simp add: padTo_def bitblt_def new_png_def)

lemma padTo_data:
  assumes "length (data img) = width img * height img" "width img \<le> W" "height img \<le> H"
  shows "length (data (padTo W H img)) = W * H \<and>
         (\<forall>i < W * H. data (padTo W H img) ! i =
            (if i div W < height img \<and> i mod W < width img
             then data img ! ((i div W) * width img + i mod W) else blank_pixel))"
proof (cases "width img = W \<and> height img = H")
  case True
  have "\<And>i. i < W * H \<Longrightarrow> i div W < H \<and> i mod W < W"
    by (metis less_mult_imp_div_less mult.commute mod_less_divisor mult_0 not_gr_zero not_less_zero)
  with True assms show ?thesis by (simp add: padTo_def)
next
  case False
  have "data (padTo W H img) =
        fold (\<lambda>y d. buffer_copy (data img) d (y * W) (y * width img) (y * width img + width img))
          [0 ..< height img] (replicate (W * H) blank_pixel)"
    using False by (auto simp: padTo_def bitblt_def new_png_def)
  then show ?thesis
    using bitblt_rows [of "data img" "width img" "height img" "replicate (W * H) blank_pixel" W H "height img"]
      assms by simp
qed

lemma padTo_taller:
  assumes "length (data img) = W * height img" "width img = W" "height img \<le> H"
  shows "data (padTo W H img) = data img @ replicate (W * (H - height img)) blank_pixel"
proof (rule nth_equalityI)
  have l: "length (data (padTo W H img)) = W * H"
    using padTo_data [of img W H] assms by simp
  have "W * height img + W * (H - height img) = W * H"
    using assms(3) by (metis add_mult_distrib2 le_add_diff_inverse)
  then show len: "length (data (padTo W H img)) = length (data img @ replicate (W * (H - height img)) blank_pixel)"
    using l assms by simp
  fix i assume "i < length (data (padTo W H img))"
  then have i: "i < W * H" using l by simp
  then have W0: "0 < W" by (cases W) auto
  have d: "(i div W < height img) = (i < W * height img)"
    using W0 by (simp add: div_less_iff_less_mult mult.commute)
  have "data (padTo W H img) ! i =
        (if i div W < height img \<and> i mod W < width img
         then data img ! ((i div W) * width img + i mod W) else blank_pixel)"
    using padTo_data [of img W H] assms i by simp
  also have "\<dots> = (if i < W * height img then data img ! i else blank_pixel)"
    using W0 assms(2) d by simp
  also have "\<dots> = (data img @ replicate (W * (H - height img)) blank_pixel) ! i"
    using i len l assms(1) by (auto simp: nth_append)
  finally show "data (padTo W H img) ! i = (data img @ replicate (W * (H - height img)) blank_pixel) ! i" .
qed

lemma differing_same: "filter (\<lambda>(p, q). p \<noteq> q) (zip xs xs) = []"
  by (induction xs) auto

lemma differing_appended:
  assumes "length ys = length zs"
  shows "length (filter (\<lambda>(p, q). p \<noteq> q) (zip (xs @ ys) (xs @ zs))) \<le> length ys"
proof -
  have "length (filter (\<lambda>(p, q). p \<noteq> q) (zip ys zs)) \<le> length (zip ys zs)"
    by (rule length_filter_le)
  then show ?thesis using assms by (simp add: differing_same)
qed

lemma js_div_pos: "0 < d \<Longrightarrow> js_div n d = Num (of_nat n / of_nat d)"
  by (simp add: js_div_def)

lemma diffPngs_decoded:
  assumes "pngFromBuffer e b1 = Some img1" "pngFromBuffer e b2 = Some img2"
  shows "\<exists>d. diffPngs e b1 b2 t = Inr d \<and>
           totalPixels d = max (width img1) (width img2) * max (height img1) (height img2) \<and>
           diffPixels d = snd (pixelmatch e
               (data (padTo (max (width img1) (width img2)) (max (height img1) (height img2)) img1))
               (data (padTo (max (width img1) (width img2)) (max (height img1) (height img2)) img2))
               (max (width img1) (width img2)) (max (height img1) (height img2)) t False) \<and>
           ratio d = js_div (diffPixels d) (totalPixels d)"
  using assms by (simp add: diffPngs_def Let_def split: prod.splits)

subsection \<open>The concrete codec and matcher\<close>

lemma length_pixels_of: "length b = 4 * n \<Longrightarrow> length (pixels_of b) = n"
proof (induction b arbitrary: n rule: pixels_of.induct)
  case (1 r g b a rest)
  then obtain m where "n = Suc m" by (cases n) auto
  with 1 show ?case by simp
qed auto

lemma raw_decode_wf: "raw_decode b = Some img \<Longrightarrow> wf_png img"
  by (auto simp: raw_decode_def wf_png_def length_pixels_of split: list.splits if_splits)

lemma demo_codec_wf: "codec_wf demo_env"
  by (simp add: codec_wf_def demo_env_def raw_decode_wf)

lemma pixelmatch_ref_sound: "matcher_sound pixelmatch_ref"
proof -
  have "\<And>t pq. pixels_differ t pq \<Longrightarrow> (case pq of (p, q) \<Rightarrow> p \<noteq> q)"
    by (auto simp: channel_delta_def abs_if split: if_splits)
  then have "\<And>t (xs :: (pixel \<times> pixel) list). length (filter (pixels_differ t) xs) \<le> length (filter (\<lambda>(p, q). p \<noteq> q) xs)"
    subgoal for t xs by (induction xs) auto
    done
  then show ?thesis by (simp add: matcher_sound_def pixelmatch_ref_def)
qed

lemma demo_matcher_sound: "matcher_sound (pixelmatch demo_env)"
  by (simp add: demo_env_def pixelmatch_ref_sound)

lemma matcher_same:
  assumes "matcher_sound pm"
  shows "snd (pm a a w h t aa) = 0"
  using assms [unfolded matcher_sound_def, rule_format, of a a w h t aa]
  by (simp add: differing_same)

lemma diffPngs_same:
  assumes "matcher_sound (pixelmatch e)" "codec_wf e" "pngFromBuffer e x = Some img"
  shows "\<exists>d. diffPngs e x x t = Inr d \<and> diffPixels d = 0 \<and> ratio d = Num 0"
proof -
  have wf: "wf_png img" using assms(2,3) by (auto simp: codec_wf_def)
  obtain d where d: "diffPngs e x x t = Inr d"
      "totalPixels d = max (width img) (width img) * max (height img) (height img)"
      "diffPixels d = snd (pixelmatch e
               (data (padTo (max (width img) (width img)) (max (height img) (height img)) img))
               (data (padTo (max (width img) (width img)) (max (height img) (height img)) img))
               (max (width img) (width img)) (max (height img) (height img)) t False)"
      "ratio d = js_div (diffPixels d) (totalPixels d)"
    using diffPngs_decoded [OF assms(3) assms(3), of t] by blast
  have z: "diffPixels d = 0" unfolding d(3) by (rule matcher_same [OF assms(1)])
  have "0 < totalPixels d" using wf by (simp add: d(2) wf_png_def)
  then have "ratio d = Num 0" using z d(4) by (simp add: js_div_pos)
  with d(1) z show ?thesis by blast
qed

subsection \<open>Identical images\<close>

text \<open>
  Claim C9. For every raster image \<open>x\<close> and every pixel tolerance, the differ applied to
  \<open>x\<close> and \<open>x\<close> yields a differing-pixel count of 0 and the ratio 0, and the orchestrator
  decides Unchanged on it for every change-ratio threshold greater than 0: the comparison
  returns \<open>Unchanged\<close> and leaves the state as it was. The image is what the decoder
  returns for the buffer; the matcher counts only positions that hold different pixels.
\<close>

theorem C9_identical_images_unchanged:
  assumes "matcher_sound (pixelmatch e)" and "codec_wf e"
    and "pngFromBuffer e x = Some img"
    and "readFile e (InBaselines (slug @ ''.png'')) st = Inr x"
    and "0 < changeThresholdRatio cfg"
  shows "(\<exists>d. diffPngs e x x (pixelmatchThreshold cfg) = Inr d \<and> diffPixels d = 0 \<and> ratio d = Num 0) \<and>
         compareWithBaseline e cfg url slug x st = (Inr Unchanged, st)"
proof -
  obtain d where d: "diffPngs e x x (pixelmatchThreshold cfg) = Inr d" "diffPixels d = 0" "ratio d = Num 0"
    using diffPngs_same [OF assms(1-3)] by blast
  have "\<not> js_ge (ratio d) (changeThresholdRatio cfg)"
    using assms(5) d(3) by simp
  then have "compareWithBaseline e cfg url slug x st = (Inr Unchanged, st)"
    using assms(4) d(1) by (simp add: compareWithBaseline_def)
  with d show ?thesis by blast
qed

theorem C9_identical_images_unchanged_witness:
  "compareWithBaseline demo_env demo_cfg ''a'' ''a'' img_1x2 (initial_state [InBaselines ''a.png'' \<mapsto> img_1x2])
     = (Inr Unchanged, initial_state [InBaselines ''a.png'' \<mapsto> img_1x2]) \<and>
   (\<exists>d. diffPngs demo_env img_1x2 img_1x2 (1 / 10) = Inr d \<and> diffPixels d = 0 \<and> ratio d = Num 0)"
proof -
  have dec: "pngFromBuffer demo_env img_1x2 = Some \<lparr> width = 1, height = 2, data = [(9, 9, 9, 255), (200, 200, 200, 255)] \<rparr>"
    by (simp add: demo_env_def raw_decode_def img_1x2_def grey_def)
  have rd: "readFile demo_env (InBaselines (''a'' @ ''.png'')) (initial_state [InBaselines ''a.png'' \<mapsto> img_1x2]) = Inr img_1x2"
    by (simp add: readFile_def demo_env_def initial_state_def)
  have thr: "0 < changeThresholdRatio demo_cfg" "pixelmatchThreshold demo_cfg = 1 / 10"
    by (simp_all add: demo_cfg_def)
  show ?thesis
    using C9_identical_images_unchanged [OF demo_matcher_sound demo_codec_wf dec rd thr(1), of "''a''"] thr(2)
    by simp
qed

lemma diffPngs_ratio:
  assumes "codec_wf e" "diffPngs e b1 b2 t = Inr d"
  shows "0 < totalPixels d \<and> ratio d = Num (of_nat (diffPixels d) / of_nat (totalPixels d))"
proof -
  obtain img1 img2 where dec: "pngFromBuffer e b1 = Some img1" "pngFromBuffer e b2 = Some img2"
    using assms(2) by (auto simp: diffPngs_def split: option.splits)
  then have "wf_png img1" using assms(1) by (auto simp: codec_wf_def)
  then have pos: "0 < max (width img1) (width img2) * max (height img1) (height img2)"
    by (auto simp: wf_png_def max_def)
  obtain d' where d': "diffPngs e b1 b2 t = Inr d'"
      "totalPixels d' = max (width img1) (width img2) * max (height img1) (height img2)"
      "ratio d' = js_div (diffPixels d') (totalPixels d')"
    using diffPngs_decoded [OF dec, of t] by blast
  then have "d' = d" using assms(2) by simp
  with d' pos show ?thesis by (simp add: js_div_pos)
qed

lemma js_lt_not_ge: "js_lt r t \<Longrightarrow> \<not> js_ge r t"
  by (cases r) auto

subsection \<open>The padded canvas\<close>

lemma index_xy:
  assumes "x < (W::nat)"
  shows "(y * W + x) div W = y \<and> (y * W + x) mod W = x"
  using assms by simp

lemma padTo_pixel:
  assumes "wf_png img" "width img \<le> W" "height img \<le> H" "x < W" "y < H"
  shows "data (padTo W H img) ! (y * W + x) =
           (if x < width img \<and> y < height img then data img ! (y * width img + x) else blank_pixel)"
proof -
  have "y * W + x < W * H"
  proof -
    have "y * W + x < Suc y * W" using assms(4) by simp
    also have "\<dots> \<le> H * W" using assms(5) by (meson Suc_leI mult_le_mono1)
    finally show ?thesis by (simp add: mult.commute)
  qed
  then show ?thesis
    using padTo_data [of img W H] assms index_xy [OF assms(4), of y]
    by (auto simp: wf_png_def)
qed

lemma taller_count:
  assumes "matcher_sound pm" "wf_png img1" "wf_png img2"
    and "width img2 = width img1" "height img1 < height img2"
    and "take (width img1 * height img1) (data img2) = data img1"
  shows "snd (pm (data (padTo (width img1) (height img2) img1))
                 (data (padTo (width img1) (height img2) img2)) w h t aa)
           \<le> width img1 * (height img2 - height img1)"
proof -
  let ?w = "width img1" and ?h1 = "height img1" and ?h2 = "height img2"
  have a: "data (padTo ?w ?h2 img1) = data img1 @ replicate (?w * (?h2 - ?h1)) blank_pixel"
    using padTo_taller [of img1 ?w ?h2] assms(2,5) by (simp add: wf_png_def)
  have b: "padTo ?w ?h2 img2 = img2"
    using assms(4) by (simp add: padTo_def)
  have c: "data img2 = data img1 @ drop (?w * ?h1) (data img2)"
    using assms(6) by (metis append_take_drop_id)
  have l: "length (drop (?w * ?h1) (data img2)) = ?w * (?h2 - ?h1)"
    using assms(3,4) by (simp add: wf_png_def diff_mult_distrib2)
  have "snd (pm (data img1 @ replicate (?w * (?h2 - ?h1)) blank_pixel)
                (data img1 @ drop (?w * ?h1) (data img2)) w h t aa)
        \<le> length (filter (\<lambda>(p, q). p \<noteq> q)
             (zip (data img1 @ replicate (?w * (?h2 - ?h1)) blank_pixel)
                  (data img1 @ drop (?w * ?h1) (data img2))))"
    using assms(1) [unfolded matcher_sound_def] by blast
  also have "\<dots> \<le> length (replicate (?w * (?h2 - ?h1)) blank_pixel)"
    by (rule differing_appended) (simp only: l length_replicate)
  finally show ?thesis using a b c by simp
qed

text \<open>
  Claim C4, as amended. For every pair of decoded images, \<open>diffPngs\<close> compares them on a
  canvas whose width and height are the maxima of the two widths and heights: each padded
  image has the size of the canvas, holds the original pixel at every position inside the
  original and the blank pixel (0, 0, 0, 0) everywhere else, and the ratio is the count of
  the matcher on the two padded images divided by the area of the canvas. When the current
  image is strictly taller, has the width of the baseline and the pixels of the baseline
  in its first rows, and the matcher counts only positions that hold different pixels,
  the count is at most the added area, so the ratio is at most the added area divided by
  the area of the canvas. The bound is not always reached: see the counterexample.
\<close>

theorem C4_padded_canvas:
  assumes "pngFromBuffer e baselineBuf = Some img1" and "pngFromBuffer e currentBuf = Some img2"
    and "wf_png img1" and "wf_png img2"
    and "W = max (width img1) (width img2)" and "H = max (height img1) (height img2)"
  shows "\<exists>d. diffPngs e baselineBuf currentBuf t = Inr d \<and>
           totalPixels d = W * H \<and>
           diffPixels d = snd (pixelmatch e (data (padTo W H img1)) (data (padTo W H img2)) W H t False) \<and>
           ratio d = Num (of_nat (diffPixels d) / of_nat (W * H)) \<and>
           (\<forall>img \<in> {img1, img2}.
              width (padTo W H img) = W \<and> height (padTo W H img) = H \<and>
              length (data (padTo W H img)) = W * H \<and>
              (\<forall>x < W. \<forall>y < H. data (padTo W H img) ! (y * W + x) =
                 (if x < width img \<and> y < height img then data img ! (y * width img + x)
                  else blank_pixel))) \<and>
           (matcher_sound (pixelmatch e) \<longrightarrow> width img2 = width img1 \<longrightarrow> height img1 < height img2 \<longrightarrow>
            take (width img1 * height img1) (data img2) = data img1 \<longrightarrow>
              diffPixels d \<le> width img1 * (height img2 - height img1) \<and>
              of_nat (diffPixels d) / of_nat (W * H)
                \<le> (of_nat (width img1 * (height img2 - height img1)) / of_nat (W * H) :: rat))"
proof -
  obtain d where d: "diffPngs e baselineBuf currentBuf t = Inr d"
      "totalPixels d = W * H"
      "diffPixels d = snd (pixelmatch e (data (padTo W H img1)) (data (padTo W H img2)) W H t False)"
      "ratio d = js_div (diffPixels d) (totalPixels d)"
    using diffPngs_decoded [OF assms(1,2), of t] assms(5,6) by blast
  have pos: "0 < W * H" using assms(3,5,6) by (auto simp: wf_png_def max_def)
  have r: "ratio d = Num (of_nat (diffPixels d) / of_nat (W * H))"
    using d(2,4) pos by (simp add: js_div_pos)
  have canvas: "width (padTo W H img) = W \<and> height (padTo W H img) = H \<and>
              length (data (padTo W H img)) = W * H \<and>
              (\<forall>x < W. \<forall>y < H. data (padTo W H img) ! (y * W + x) =
                 (if x < width img \<and> y < height img then data img ! (y * width img + x)
                  else blank_pixel))"
    if "img \<in> {img1, img2}" for img
  proof -
    have wf: "wf_png img" and le: "width img \<le> W" "height img \<le> H"
      using that assms(3-6) by auto
    have "length (data (padTo W H img)) = W * H"
      using padTo_data [of img W H] wf le by (simp add: wf_png_def)
    then show ?thesis
      using padTo_dims [of W H img] padTo_pixel [OF wf le] by simp
  qed
  have taller: "diffPixels d \<le> width img1 * (height img2 - height img1) \<and>
              of_nat (diffPixels d) / of_nat (W * H)
                \<le> (of_nat (width img1 * (height img2 - height img1)) / of_nat (W * H) :: rat)"
    if "matcher_sound (pixelmatch e)" "width img2 = width img1" "height img1 < height img2"
       "take (width img1 * height img1) (data img2) = data img1"
  proof -
    have WH: "W = width img1" "H = height img2" using that(2,3) assms(5,6) by auto
    have n: "diffPixels d \<le> width img1 * (height img2 - height img1)"
      unfolding d(3) WH by (rule taller_count [OF that(1) assms(3,4) that(2-4)])
    then have "(of_nat (diffPixels d) :: rat) \<le> of_nat (width img1 * (height img2 - height img1))"
      by (simp only: of_nat_le_iff)
    then show ?thesis using n by (simp add: divide_right_mono)
  qed
  show ?thesis
    using d(1,2,3) r canvas taller by blast
qed

text \<open>
  A run of C4: a baseline of one pixel and a current image of two pixels, the added pixel
  grey. The added pixel registers, and the ratio is 1/2.
\<close>

theorem C4_padded_canvas_witness:
  "pngFromBuffer demo_env img_1x1 = Some \<lparr> width = 1, height = 1, data = [(9, 9, 9, 255)] \<rparr> \<and>
   pngFromBuffer demo_env img_1x2 =
     Some \<lparr> width = 1, height = 2, data = [(9, 9, 9, 255), (200, 200, 200, 255)] \<rparr> \<and>
   diffPngs demo_env img_1x1 img_1x2 (1 / 10) =
     Inr \<lparr> diffBuf = [1, 2, 0, 0, 0, 0, 255, 0, 0, 255], diffPixels = 1, totalPixels = 2,
           ratio = Num (1 / 2) \<rparr> \<and>
   (\<exists>d. diffPngs demo_env img_1x1 img_1x2 (1 / 10) = Inr d \<and> totalPixels d = 1 * 2 \<and>
        diffPixels d \<le> 1 * (2 - 1) \<and> ratio d = Num (of_nat (diffPixels d) / of_nat (1 * 2)))"
proof -
  have df: "diffPngs demo_env img_1x1 img_1x2 (1 / 10) =
     Inr \<lparr> diffBuf = [1, 2, 0, 0, 0, 0, 255, 0, 0, 255], diffPixels = 1, totalPixels = 2,
           ratio = Num (1 / 2) \<rparr>"
    by code_simp
  let ?i1 = "\<lparr> width = 1, height = 1, data = [(9, 9, 9, 255)] \<rparr> :: png"
  let ?i2 = "\<lparr> width = 1, height = 2, data = [(9, 9, 9, 255), (200, 200, 200, 255)] \<rparr> :: png"
  have d1: "pngFromBuffer demo_env img_1x1 = Some ?i1"
    by (simp add: demo_env_def raw_decode_def img_1x1_def grey_def)
  have d2: "pngFromBuffer demo_env img_1x2 = Some ?i2"
    by (simp add: demo_env_def raw_decode_def img_1x2_def grey_def)
  have wf: "wf_png ?i1" "wf_png ?i2" by (simp_all add: wf_png_def)
  have m: "1 = max (width ?i1) (width ?i2)" "2 = max (height ?i1) (height ?i2)" by simp_all
  show ?thesis
    using C4_padded_canvas [OF d1 d2 wf m, of "1 / 10"] d1 d2 df demo_matcher_sound
    by auto
qed

text \<open>
  The counterexample to C4 as stated: the current image is strictly taller than the
  baseline and equal to it elsewhere, and the added pixel is blank. The padded baseline
  and the current image are then the same pixels, no pixel registers, and the ratio is 0
  although the added area is half of the canvas.
\<close>

theorem C4_blank_addition_counterexample:
  "pngFromBuffer demo_env img_1x1 = Some \<lparr> width = 1, height = 1, data = [(9, 9, 9, 255)] \<rparr> \<and>
   pngFromBuffer demo_env img_1x2_blank =
     Some \<lparr> width = 1, height = 2, data = [(9, 9, 9, 255), (0, 0, 0, 0)] \<rparr> \<and>
   diffPngs demo_env img_1x1 img_1x2_blank (1 / 10) =
     Inr \<lparr> diffBuf = [1, 2, 0, 0, 0, 0, 0, 0, 0, 0], diffPixels = 0, totalPixels = 2, ratio = Num 0 \<rparr>"
  by code_simp

subsection \<open>The change decision\<close>

text \<open>
  Claim C1. For every comparison of a current capture with an existing baseline, the
  computed ratio is a finite number \<open>q\<close>, and the orchestrator decides Changed exactly when
  \<open>q\<close> is at least the configured threshold and Unchanged exactly when \<open>q\<close> is below it;
  a ratio equal to the threshold yields Changed. The decoder returns well-formed images,
  and the two writes of a change succeed.
\<close>

theorem C1_threshold_decision:
  assumes "codec_wf e"
    and "readFile e (InBaselines (slug @ ''.png'')) st = Inr baselineBuf"
    and "diffPngs e baselineBuf currentBuf (pixelmatchThreshold cfg) = Inr d"
    and "\<not> write_fails e (InDiffs (slug @ ''.diff.png''))"
    and "\<not> write_fails e (InBaselines (slug @ ''.png''))"
  shows "\<exists>q. ratio d = Num q \<and>
           (fst (compareWithBaseline e cfg url slug currentBuf st) = Inr Changed
              \<longleftrightarrow> changeThresholdRatio cfg \<le> q) \<and>
           (fst (compareWithBaseline e cfg url slug currentBuf st) = Inr Unchanged
              \<longleftrightarrow> q < changeThresholdRatio cfg)"
proof -
  obtain q where q: "ratio d = Num q"
    using diffPngs_ratio [OF assms(1,3)] by blast
  have "fst (compareWithBaseline e cfg url slug currentBuf st) =
          (if changeThresholdRatio cfg \<le> q then Inr Changed else Inr Unchanged)"
    using assms(2-5) q by (simp add: compareWithBaseline_def writeFileAtomic_def)
  then show ?thesis using q by auto
qed

text \<open>
  A run of C1 at the boundary: the ratio is 1/2 and the threshold is 1/2; the decision
  is Changed.
\<close>

theorem C1_threshold_decision_witness:
  "diffPngs demo_env img_1x1 img_1x2 (pixelmatchThreshold demo_cfg) =
     Inr \<lparr> diffBuf = [1, 2, 0, 0, 0, 0, 255, 0, 0, 255], diffPixels = 1, totalPixels = 2, ratio = Num (1 / 2) \<rparr> \<and>
   changeThresholdRatio demo_cfg = 1 / 2 \<and>
   fst (compareWithBaseline demo_env demo_cfg ''a'' ''a'' img_1x2
          (initial_state [InBaselines ''a.png'' \<mapsto> img_1x1])) = Inr Changed"
proof -
  have rd: "readFile demo_env (InBaselines (''a'' @ ''.png'')) (initial_state [InBaselines ''a.png'' \<mapsto> img_1x1]) = Inr img_1x1"
    by (simp add: readFile_def demo_env_def initial_state_def)
  have df: "diffPngs demo_env img_1x1 img_1x2 (pixelmatchThreshold demo_cfg) =
     Inr \<lparr> diffBuf = [1, 2, 0, 0, 0, 0, 255, 0, 0, 255], diffPixels = 1, totalPixels = 2, ratio = Num (1 / 2) \<rparr>"
    by code_simp
  have w: "\<not> write_fails demo_env (InDiffs (''a'' @ ''.diff.png''))" "\<not> write_fails demo_env (InBaselines (''a'' @ ''.png''))"
    by (simp_all add: demo_env_def)
  have t: "changeThresholdRatio demo_cfg = 1 / 2" by (simp add: demo_cfg_def)
  show ?thesis
    using C1_threshold_decision [OF demo_codec_wf rd df w, of "''a''"] df t by auto
qed

subsection \<open>The effects of one target\<close>

text \<open>
  Claim C2. For every target whose comparison yields a ratio that reaches the threshold,
  the run ends the target in Changed: the diff image is stored under the diff path, one
  change entry with the ratio, the differing-pixel count and the total-pixel count is
  appended to the report, and the baseline file holds the bytes of the capture. The
  capture and the read of the baseline succeed and no write fails.
\<close>

theorem C2_changed_updates:
  assumes "safeSlug e url = Some slug"
    and "captureFullPage e url (viewport cfg) = Inr currentBuf"
    and "files st (InBaselines (slug @ ''.png'')) = Some baselineBuf"
    and "\<not> read_fails e (InBaselines (slug @ ''.png''))"
    and "diffPngs e baselineBuf currentBuf (pixelmatchThreshold cfg) = Inr d"
    and "js_ge (ratio d) (changeThresholdRatio cfg)"
    and "\<not> write_fails e (InRun (slug @ ''.png''))"
    and "\<not> write_fails e (InDiffs (slug @ ''.diff.png''))"
    and "\<not> write_fails e (InBaselines (slug @ ''.png''))"
  shows "\<exists>st'. processTarget e cfg url st = (Inr Changed, st') \<and>
           files st' (InDiffs (slug @ ''.diff.png'')) = Some (diffBuf d) \<and>
           changes st' = changes st @ [Diff url (ratio d) (diffPixels d) (totalPixels d)] \<and>
           files st' (InBaselines (slug @ ''.png'')) = Some currentBuf"
  using assms
  by (simp add: processTarget_def compareWithBaseline_def writeFileAtomic_def readFile_def
      fileExists_def Let_def)

theorem C2_changed_updates_witness:
  "fst (processTarget demo_env demo_cfg ''a'' (initial_state [InBaselines ''a.png'' \<mapsto> img_1x1])) = Inr Changed \<and>
   files (snd (processTarget demo_env demo_cfg ''a'' (initial_state [InBaselines ''a.png'' \<mapsto> img_1x1])))
     (InDiffs ''a.diff.png'') = Some [1, 2, 0, 0, 0, 0, 255, 0, 0, 255] \<and>
   changes (snd (processTarget demo_env demo_cfg ''a'' (initial_state [InBaselines ''a.png'' \<mapsto> img_1x1])))
     = [Diff ''a'' (Num (1 / 2)) 1 2] \<and>
   files (snd (processTarget demo_env demo_cfg ''a'' (initial_state [InBaselines ''a.png'' \<mapsto> img_1x1])))
     (InBaselines ''a.png'') = Some img_1x2"
proof -
  let ?st = "initial_state [InBaselines ''a.png'' \<mapsto> img_1x1]"
  let ?d = "\<lparr> diffBuf = [1, 2, 0, 0, 0, 0, 255, 0, 0, 255], diffPixels = 1, totalPixels = 2, ratio = Num (1 / 2) \<rparr>"
  have s: "safeSlug demo_env ''a'' = Some ''a''"
    and c: "captureFullPage demo_env ''a'' (viewport demo_cfg) = Inr img_1x2"
    and b: "files ?st (InBaselines (''a'' @ ''.png'')) = Some img_1x1"
    and r: "\<not> read_fails demo_env (InBaselines (''a'' @ ''.png''))"
    and w: "\<not> write_fails demo_env (InRun (''a'' @ ''.png''))"
       "\<not> write_fails demo_env (InDiffs (''a'' @ ''.diff.png''))"
       "\<not> write_fails demo_env (InBaselines (''a'' @ ''.png''))"
    by (simp_all add: demo_env_def initial_state_def)
  have df: "diffPngs demo_env img_1x1 img_1x2 (pixelmatchThreshold demo_cfg) = Inr ?d"
    by code_simp
  have ge: "js_ge (ratio ?d) (changeThresholdRatio demo_cfg)"
    by (simp add: demo_cfg_def)
  show ?thesis
    using C2_changed_updates [OF s c b r df ge w] by (auto simp: initial_state_def)
qed

text \<open>
  Claim C3. For every target with no baseline file whose capture succeeds, the run writes
  the capture as the baseline, counts one seeded baseline and appends nothing to the
  report, whatever the bytes of the capture are; no comparison is performed: the result is
  the same for every decoder, encoder and matcher. No write fails.
\<close>

theorem C3_seeding:
  assumes "safeSlug e url = Some slug"
    and "captureFullPage e url (viewport cfg) = Inr currentBuf"
    and "files st (InBaselines (slug @ ''.png'')) = None"
    and "\<not> write_fails e (InRun (slug @ ''.png''))"
    and "\<not> write_fails e (InBaselines (slug @ ''.png''))"
  shows "\<exists>st'. processTarget e cfg url st = (Inr Seeded, st') \<and>
           files st' (InBaselines (slug @ ''.png'')) = Some currentBuf \<and>
           changes st' = changes st \<and>
           seededBaselines st' = seededBaselines st + 1 \<and>
           (\<forall>dec enc pm. processTarget (e \<lparr> pngFromBuffer := dec, pngToBuffer := enc, pixelmatch := pm \<rparr>) cfg url st
               = (Inr Seeded, st'))"
  using assms
  by (simp add: processTarget_def writeFileAtomic_def fileExists_def Let_def)

theorem C3_seeding_witness:
  "fst (processTarget demo_env demo_cfg ''a'' (initial_state Map.empty)) = Inr Seeded \<and>
   files (snd (processTarget demo_env demo_cfg ''a'' (initial_state Map.empty))) (InBaselines ''a.png'') = Some img_1x2 \<and>
   changes (snd (processTarget demo_env demo_cfg ''a'' (initial_state Map.empty))) = [] \<and>
   seededBaselines (snd (processTarget demo_env demo_cfg ''a'' (initial_state Map.empty))) = 1"
proof -
  have s: "safeSlug demo_env ''a'' = Some ''a''"
    and c: "captureFullPage demo_env ''a'' (viewport demo_cfg) = Inr img_1x2"
    and b: "files (initial_state Map.empty) (InBaselines (''a'' @ ''.png'')) = None"
    and w: "\<not> write_fails demo_env (InRun (''a'' @ ''.png''))"
       "\<not> write_fails demo_env (InBaselines (''a'' @ ''.png''))"
    by (simp_all add: demo_env_def initial_state_def)
  show ?thesis
    using C3_seeding [OF s c b w] by (auto simp: initial_state_def)
qed

text \<open>
  Claim C7. For every target whose comparison yields a ratio strictly below the
  threshold, the comparison leaves the whole state as it was, and the target ends in
  Unchanged: every file of the baseline directory and of the diff directory is what it
  was, and the report and the seeded count are unchanged. The only file the loop body has
  written is the copy of the capture in the run directory, which it writes for every
  captured target before it looks for the baseline.
\<close>

theorem C7_unchanged_frame:
  assumes "safeSlug e url = Some slug"
    and "captureFullPage e url (viewport cfg) = Inr currentBuf"
    and "files st (InBaselines (slug @ ''.png'')) = Some baselineBuf"
    and "\<not> read_fails e (InBaselines (slug @ ''.png''))"
    and "diffPngs e baselineBuf currentBuf (pixelmatchThreshold cfg) = Inr d"
    and "js_lt (ratio d) (changeThresholdRatio cfg)"
    and "\<not> write_fails e (InRun (slug @ ''.png''))"
  shows "compareWithBaseline e cfg url slug currentBuf st = (Inr Unchanged, st) \<and>
         (\<exists>st'. processTarget e cfg url st = (Inr Unchanged, st') \<and>
            st' = st \<lparr> files := (files st)(InRun (slug @ ''.png'') \<mapsto> currentBuf) \<rparr> \<and>
            (\<forall>name. files st' (InBaselines name) = files st (InBaselines name)) \<and>
            (\<forall>name. files st' (InDiffs name) = files st (InDiffs name)) \<and>
            changes st' = changes st \<and> seededBaselines st' = seededBaselines st)"
  using assms js_lt_not_ge [OF assms(6)]
  by (simp add: processTarget_def compareWithBaseline_def writeFileAtomic_def readFile_def
      fileExists_def Let_def)

theorem C7_unchanged_frame_witness:
  "diffPngs demo_env img_1x3 img_1x3_new (pixelmatchThreshold demo_cfg) =
     Inr \<lparr> diffBuf = [1, 3, 0, 0, 0, 0, 0, 0, 0, 0, 255, 0, 0, 255], diffPixels = 1, totalPixels = 3,
           ratio = Num (1 / 3) \<rparr> \<and>
   processTarget demo_env demo_cfg ''b'' (initial_state [InBaselines ''b.png'' \<mapsto> img_1x3]) =
     (Inr Unchanged, (initial_state [InBaselines ''b.png'' \<mapsto> img_1x3])
        \<lparr> files := [InBaselines ''b.png'' \<mapsto> img_1x3, InRun ''b.png'' \<mapsto> img_1x3_new] \<rparr>)"
proof -
  let ?st = "initial_state [InBaselines ''b.png'' \<mapsto> img_1x3]"
  let ?d = "\<lparr> diffBuf = [1, 3, 0, 0, 0, 0, 0, 0, 0, 0, 255, 0, 0, 255], diffPixels = 1, totalPixels = 3,
           ratio = Num (1 / 3) \<rparr>"
  have s: "safeSlug demo_env ''b'' = Some ''b''"
    and c: "captureFullPage demo_env ''b'' (viewport demo_cfg) = Inr img_1x3_new"
    and b: "files ?st (InBaselines (''b'' @ ''.png'')) = Some img_1x3"
    and r: "\<not> read_fails demo_env (InBaselines (''b'' @ ''.png''))"
    and w: "\<not> write_fails demo_env (InRun (''b'' @ ''.png''))"
    by (simp_all add: demo_env_def initial_state_def)
  have df: "diffPngs demo_env img_1x3 img_1x3_new (pixelmatchThreshold demo_cfg) = Inr ?d"
    by code_simp
  have lt: "js_lt (ratio ?d) (changeThresholdRatio demo_cfg)"
    by (simp add: demo_cfg_def)
  show ?thesis
    using C7_unchanged_frame [OF s c b r df lt w] df by (auto simp: initial_state_def)
qed

subsection \<open>Events of a run\<close>

lemma processTarget_events: "events (snd (processTarget e cfg url st)) = events st"
  by (simp add: processTarget_def compareWithBaseline_def writeFileAtomic_def Let_def
      split: option.splits sum.splits prod.splits)

lemma runTargets_events: "events (snd (runTargets e cfg us st)) = events st"
proof (induction us arbitrary: st)
  case Nil
  then show ?case by simp
next
  case (Cons u us)
  show ?case
  proof (cases "processTarget e cfg u st")
    case (Pair r st1)
    then have "events st1 = events st" using processTarget_events [of e cfg u st] by simp
    with Pair Cons show ?thesis by (cases r) auto
  qed
qed

lemma buildAttachments_state:
  "events (snd (buildAttachments e cfg st)) = events st \<and>
   changes (snd (buildAttachments e cfg st)) = changes st \<and>
   seededBaselines (snd (buildAttachments e cfg st)) = seededBaselines st"
  by (simp add: buildAttachments_def createZip_def Let_def
      split: option.splits sum.splits prod.splits)

lemma sendMailgunEmail_state:
  "changes (snd (sendMailgunEmail e m st)) = changes st \<and>
   (fst (sendMailgunEmail e m st) = Inr () \<longrightarrow> events (snd (sendMailgunEmail e m st)) = events st @ [Dispatched m]) \<and>
   (events (snd (sendMailgunEmail e m st)) = events st \<or>
    events (snd (sendMailgunEmail e m st)) = events st @ [Dispatched m])"
  by (simp add: sendMailgunEmail_def Let_def split: option.splits)

lemma notify_events:
  "\<exists>mails. events (snd (notify e cfg st)) = events st @ map Dispatched mails \<and>
      length mails \<le> 1 \<and>
      (\<forall>m \<in> set mails. subject m =
          ''Milltech visual change detected ('' @ string_of_nat (length (changes st)) @ '')'') \<and>
      (fst (notify e cfg st) = Inr () \<longrightarrow> length mails = 1) \<and>
      changes (snd (notify e cfg st)) = changes st"
proof (cases "buildAttachments e cfg st")
  case (Pair r st1)
  have st1: "events st1 = events st" "changes st1 = changes st"
    using buildAttachments_state [of e cfg st] Pair by simp_all
  show ?thesis
  proof (cases r)
    case (Inl err)
    with Pair st1 have "events (snd (notify e cfg st)) = events st @ map Dispatched []"
      "fst (notify e cfg st) \<noteq> Inr ()" "changes (snd (notify e cfg st)) = changes st"
      by (simp_all add: notify_def)
    then show ?thesis by (intro exI [of _ "[]"]) simp
  next
    case (Inr res)
    obtain atts n where res: "res = (atts, n)" by (cases res)
    define m where "m = \<lparr> subject = ''Milltech visual change detected ('' @ string_of_nat (length (changes st1)) @ '')'',
              body = join [CHR 0x0A] (bodyLines e (changes st1) atts n),
              attachments = atts \<rparr>"
    have n: "notify e cfg st = sendMailgunEmail e m st1"
      using Pair Inr res by (simp add: notify_def m_def)
    have sub: "subject m = ''Milltech visual change detected ('' @ string_of_nat (length (changes st)) @ '')''"
      by (simp add: m_def st1)
    from sendMailgunEmail_state [of e m st1]
    consider "events (snd (notify e cfg st)) = events st" "fst (notify e cfg st) \<noteq> Inr ()"
      | "events (snd (notify e cfg st)) = events st @ [Dispatched m]"
      unfolding n st1 by auto
    then show ?thesis
    proof cases
      case 1
      then show ?thesis
        using sendMailgunEmail_state [of e m st1] n st1
        by (intro exI [of _ "[]"]) simp
    next
      case 2
      then show ?thesis
        using sendMailgunEmail_state [of e m st1] n st1 sub
        by (intro exI [of _ "[m]"]) simp
    qed
  qed
qed

lemma finishRun_events:
  "\<exists>mails. events (snd (finishRun e cfg st)) =
        events st @
        (if 0 < seededBaselines st \<or> changes st \<noteq> [] then [CommitStep (commitMessage st)] else []) @
        map Dispatched mails \<and>
      length mails \<le> 1 \<and>
      (changes st = [] \<longrightarrow> mails = []) \<and>
      (\<forall>m \<in> set mails. subject m =
          ''Milltech visual change detected ('' @ string_of_nat (length (changes st)) @ '')'') \<and>
      (fst (finishRun e cfg st) = Inr () \<longrightarrow> changes st \<noteq> [] \<longrightarrow> length mails = 1) \<and>
      changes (snd (finishRun e cfg st)) = changes st"
proof (cases "changes st = []")
  case True
  then show ?thesis
    by (intro exI [of _ "[]"]) (simp add: finishRun_def gitCommitIfNeeded_def Let_def)
next
  case False
  define st1 where "st1 = st \<lparr> events := events st @ [CommitStep (commitMessage st)] \<rparr>"
  show ?thesis
  proof (cases "git_fails e (commitMessage st)")
    case True
    with False show ?thesis
      by (intro exI [of _ "[]"]) (simp add: finishRun_def gitCommitIfNeeded_def Let_def)
  next
    case g: False
    have f: "finishRun e cfg st = notify e cfg st1"
      using False g by (simp add: finishRun_def gitCommitIfNeeded_def Let_def st1_def)
    obtain mails where m: "events (snd (notify e cfg st1)) = events st1 @ map Dispatched mails"
      "length mails \<le> 1"
      "\<forall>m \<in> set mails. subject m =
          ''Milltech visual change detected ('' @ string_of_nat (length (changes st1)) @ '')''"
      "fst (notify e cfg st1) = Inr () \<longrightarrow> length mails = 1"
      "changes (snd (notify e cfg st1)) = changes st1"
      using notify_events [of e cfg st1] by blast
    have c: "changes st1 = changes st" "events st1 = events st @ [CommitStep (commitMessage st)]"
      by (simp_all add: st1_def)
    show ?thesis
      using m False unfolding f c by (intro exI [of _ mails]) simp
  qed
qed

lemma notifications_events:
  "events st = evs @ map Dispatched mails \<Longrightarrow> \<forall>ev \<in> set evs. \<forall>m. ev \<noteq> Dispatched m \<Longrightarrow>
     notifications st = mails"
proof -
  assume a: "events st = evs @ map Dispatched mails" and b: "\<forall>ev \<in> set evs. \<forall>m. ev \<noteq> Dispatched m"
  have 1: "concat (map (\<lambda>ev. case ev of Dispatched m \<Rightarrow> [m] | _ \<Rightarrow> []) evs) = []"
    using b by (induction evs) (auto split: event.splits)
  have 2: "concat (map (\<lambda>ev. case ev of Dispatched m \<Rightarrow> [m] | _ \<Rightarrow> []) (map Dispatched mails)) = mails"
    by (induction mails) auto
  show ?thesis using a 1 2 by (simp add: notifications_def)
qed

lemma main_cases:
  "(\<exists>err st. runTargets e cfg (urls cfg) (initial_state fs) = (Inl err, st) \<and>
        main e cfg fs = (Inl err, st) \<and> events st = []) \<or>
   (\<exists>st mails. runTargets e cfg (urls cfg) (initial_state fs) = (Inr (), st) \<and>
        main e cfg fs = finishRun e cfg (shutdown st) \<and>
        events (snd (main e cfg fs)) =
          [PageClosed, ContextClosed, BrowserClosed] @
          (if 0 < seededBaselines st \<or> changes st \<noteq> [] then [CommitStep (commitMessage st)] else []) @
          map Dispatched mails \<and>
        length mails \<le> 1 \<and>
        (changes st = [] \<longrightarrow> mails = []) \<and>
        (\<forall>m \<in> set mails. subject m =
          ''Milltech visual change detected ('' @ string_of_nat (length (changes st)) @ '')'') \<and>
        (fst (main e cfg fs) = Inr () \<longrightarrow> changes st \<noteq> [] \<longrightarrow> length mails = 1) \<and>
        changes (snd (main e cfg fs)) = changes st)"
proof (cases "runTargets e cfg (urls cfg) (initial_state fs)")
  case (Pair r st)
  have ev: "events st = []"
    using runTargets_events [of e cfg "urls cfg" "initial_state fs"] Pair
    by (simp add: initial_state_def)
  show ?thesis
  proof (cases r)
    case (Inl err)
    with Pair ev show ?thesis by (simp add: main_def)
  next
    case (Inr u)
    then have m: "main e cfg fs = finishRun e cfg (shutdown st)"
      using Pair by (simp add: main_def)
    have sh: "events (shutdown st) = [PageClosed, ContextClosed, BrowserClosed]"
      "changes (shutdown st) = changes st" "seededBaselines (shutdown st) = seededBaselines st"
      "commitMessage (shutdown st) = commitMessage st"
      using ev by (simp_all add: shutdown_def commitMessage_def)
    from finishRun_events [of e cfg "shutdown st"] obtain mails where
      "events (snd (finishRun e cfg (shutdown st))) =
        events (shutdown st) @
        (if 0 < seededBaselines (shutdown st) \<or> changes (shutdown st) \<noteq> [] then [CommitStep (commitMessage (shutdown st))] else []) @
        map Dispatched mails \<and>
      length mails \<le> 1 \<and>
      (changes (shutdown st) = [] \<longrightarrow> mails = []) \<and>
      (\<forall>m \<in> set mails. subject m =
          ''Milltech visual change detected ('' @ string_of_nat (length (changes (shutdown st))) @ '')'') \<and>
      (fst (finishRun e cfg (shutdown st)) = Inr () \<longrightarrow> changes (shutdown st) \<noteq> [] \<longrightarrow> length mails = 1) \<and>
      changes (snd (finishRun e cfg (shutdown st))) = changes (shutdown st)"
      by blast
    then show ?thesis
      unfolding sh using Pair Inr m by (intro disjI2 exI [of _ st] exI [of _ mails]) simp
  qed
qed

subsection \<open>Concrete runs\<close>

lemma string_of_digit: "n < 10 \<Longrightarrow> string_of_nat n = [digit_char n]"
  by (simp add: string_of_nat.simps)

lemma demo_env_fields:
  "safeSlug demo_env u = Some u"
  "captureFullPage demo_env ''a'' v = Inr img_1x2"
  "captureFullPage demo_env ''b'' v = Inr img_1x3_new"
  "captureFullPage demo_env ''down'' v = Inl ''Timeout 60000ms exceeded''"
  "captureFullPage demo_env ''gone'' v = Inl ''Timeout 60000ms exceeded''"
  "write_fails demo_env p = False"
  "read_fails demo_env p = False"
  "git_fails demo_env msg = False"
  "mail_env demo_env = True"
  "mailgun_ok demo_env m = True"
  "zip_archive demo_env fs = Some (replicate 22 0)"
  "readdir demo_env fs = Some (filter (\<lambda>f. fs (InDiffs f) \<noteq> None) [''a.diff.png'', ''b.diff.png''])"
  by (simp_all add: demo_env_def)

lemma down_loop:
  "runTargets demo_env down_cfg (urls down_cfg) (initial_state Map.empty) =
     (Inr (), \<lparr> files = Map.empty,
                changes = [Note ''down'' ''CAPTURE FAILED: Timeout 60000ms exceeded'',
                           Note ''gone'' ''CAPTURE FAILED: Timeout 60000ms exceeded''],
                seededBaselines = 0, events = [] \<rparr>)"
  by (simp add: down_cfg_def demo_cfg_def processTarget_def demo_env_fields initial_state_def)

lemma down_run:
  "main demo_env down_cfg Map.empty =
     (Inr (), \<lparr> files = Map.empty,
                changes = [Note ''down'' ''CAPTURE FAILED: Timeout 60000ms exceeded'',
                           Note ''gone'' ''CAPTURE FAILED: Timeout 60000ms exceeded''],
                seededBaselines = 0,
                events = [PageClosed, ContextClosed, BrowserClosed,
                  CommitStep ''Update baselines (2 change(s))'',
                  Dispatched \<lparr> subject = ''Milltech visual change detected (2)'',
                    body = join [CHR 0x0A] (bodyLines demo_env
                       [Note ''down'' ''CAPTURE FAILED: Timeout 60000ms exceeded'',
                        Note ''gone'' ''CAPTURE FAILED: Timeout 60000ms exceeded''] [] 0),
                    attachments = [] \<rparr>] \<rparr>)"
  apply (simp only: main_def down_loop prod.case sum.case)
  apply (simp add: shutdown_def finishRun_def gitCommitIfNeeded_def notify_def commitMessage_def
      buildAttachments_def sendMailgunEmail_def demo_env_fields Let_def
      string_of_digit digit_char_def)
  done

lemma disk_full_loop:
  "runTargets disk_full_env demo_cfg (urls demo_cfg) (initial_state Map.empty) =
     (Inl (WriteFailed (InBaselines ''a.png'')),
      \<lparr> files = [InRun ''a.png'' \<mapsto> img_1x2], changes = [], seededBaselines = 0, events = [] \<rparr>)"
  by (simp add: demo_cfg_def processTarget_def disk_full_env_def demo_env_fields initial_state_def
      writeFileAtomic_def fileExists_def)

subsection \<open>Notification and shutdown\<close>

text \<open>
  Claim C8, as amended. The shutdown of page, context and browser is three statements
  after the loop, with no guaranteed-release scope around them. When the loop ends
  without an error, the shutdown executes, in this order, before anything else the run
  does; a failed capture is caught inside the loop body, ends its target in Failed and
  does not end the loop. When the processing of a target throws (an invalid URL, a failed
  write or read, a baseline that does not decode), \<open>main\<close> ends with that error and no
  shutdown step has executed.
\<close>

theorem C8_shutdown_after_loop:
  "(\<forall>err st. runTargets e cfg (urls cfg) (initial_state fs) = (Inl err, st) \<longrightarrow>
       main e cfg fs = (Inl err, st) \<and> events st = []) \<and>
   (\<forall>st. runTargets e cfg (urls cfg) (initial_state fs) = (Inr (), st) \<longrightarrow>
       take 3 (events (snd (main e cfg fs))) = [PageClosed, ContextClosed, BrowserClosed]) \<and>
   (\<forall>url slug msg st. safeSlug e url = Some slug \<longrightarrow> captureFullPage e url (viewport cfg) = Inl msg \<longrightarrow>
       fst (processTarget e cfg url st) = Inr Failed)"
proof (intro conjI)
  show "\<forall>err st. runTargets e cfg (urls cfg) (initial_state fs) = (Inl err, st) \<longrightarrow>
       main e cfg fs = (Inl err, st) \<and> events st = []"
    using main_cases [of e cfg fs] by auto
  show "\<forall>st. runTargets e cfg (urls cfg) (initial_state fs) = (Inr (), st) \<longrightarrow>
       take 3 (events (snd (main e cfg fs))) = [PageClosed, ContextClosed, BrowserClosed]"
    using main_cases [of e cfg fs] by auto
  show "\<forall>url slug msg st. safeSlug e url = Some slug \<longrightarrow> captureFullPage e url (viewport cfg) = Inl msg \<longrightarrow>
       fst (processTarget e cfg url st) = Inr Failed"
    by (simp add: processTarget_def)
qed

text \<open>
  Two runs of C8: both captures fail and the shutdown executes; the baseline write fails
  and \<open>main\<close> ends with the error, no event recorded.
\<close>

theorem C8_shutdown_after_loop_witness:
  "take 3 (events (snd (main demo_env down_cfg Map.empty))) = [PageClosed, ContextClosed, BrowserClosed] \<and>
   main disk_full_env demo_cfg Map.empty =
     (Inl (WriteFailed (InBaselines ''a.png'')),
      \<lparr> files = [InRun ''a.png'' \<mapsto> img_1x2], changes = [], seededBaselines = 0, events = [] \<rparr>)"
  using C8_shutdown_after_loop [of demo_env down_cfg Map.empty]
        C8_shutdown_after_loop [of disk_full_env demo_cfg Map.empty]
  by (simp add: down_loop disk_full_loop del: take_Suc_Cons)

text \<open>
  The counterexample to C8 as stated: the capture of \<open>a\<close> succeeds and its copy in the
  run directory is written, the atomic write of the baseline fails, the run ends with
  that error, and neither page, context nor browser has been closed.
\<close>

theorem C8_no_shutdown_counterexample:
  "fst (main disk_full_env demo_cfg Map.empty) = Inl (WriteFailed (InBaselines ''a.png'')) \<and>
   files (snd (main disk_full_env demo_cfg Map.empty)) (InRun ''a.png'') = Some img_1x2 \<and>
   events (snd (main disk_full_env demo_cfg Map.empty)) = []"
  by (simp add: main_def disk_full_loop)

text \<open>
  Claim C10. For every run whose loop ends without an error: if the report holds only
  capture failures and no baseline was seeded, the first thing the run does after the
  shutdown is the commit step, with the message \<open>Update baselines (N change(s))\<close> where
  \<open>N\<close> is the number of failure entries; and the subject of every notification of the run
  carries one total, the number of failure entries plus the number of change entries.
\<close>

theorem C10_failures_counted_as_changes:
  assumes "runTargets e cfg (urls cfg) (initial_state fs) = (Inr (), st)"
  shows "(seededBaselines st = 0 \<and> changes st \<noteq> [] \<and> (\<forall>c \<in> set (changes st). is_note c) \<longrightarrow>
            (\<exists>rest. events (snd (main e cfg fs)) =
               [PageClosed, ContextClosed, BrowserClosed,
                CommitStep (''Update baselines ('' @
                   string_of_nat (length (filter is_note (changes st))) @ '' change(s))'')] @ rest)) \<and>
         (\<forall>m \<in> set (notifications (snd (main e cfg fs))). subject m =
            ''Milltech visual change detected ('' @
              string_of_nat (length (filter is_note (changes st)) +
                             length (filter (\<lambda>c. \<not> is_note c) (changes st))) @ '')'')"
proof -
  from main_cases [of e cfg fs] assms obtain mails where
    ev: "events (snd (main e cfg fs)) =
          [PageClosed, ContextClosed, BrowserClosed] @
          (if 0 < seededBaselines st \<or> changes st \<noteq> [] then [CommitStep (commitMessage st)] else []) @
          map Dispatched mails"
    and sub: "\<forall>m \<in> set mails. subject m =
          ''Milltech visual change detected ('' @ string_of_nat (length (changes st)) @ '')''"
    by auto
  have n: "notifications (snd (main e cfg fs)) = mails"
    by (rule notifications_events [where evs = "[PageClosed, ContextClosed, BrowserClosed] @
          (if 0 < seededBaselines st \<or> changes st \<noteq> [] then [CommitStep (commitMessage st)] else [])"])
      (use ev in auto)
  have total: "length (filter is_note (changes st)) + length (filter (\<lambda>c. \<not> is_note c) (changes st))
                 = length (changes st)"
    by (rule sum_length_filter_compl)
  have part1: "\<exists>rest. events (snd (main e cfg fs)) =
               [PageClosed, ContextClosed, BrowserClosed,
                CommitStep (''Update baselines ('' @
                   string_of_nat (length (filter is_note (changes st))) @ '' change(s))'')] @ rest"
    if "seededBaselines st = 0" "changes st \<noteq> []" "\<forall>c \<in> set (changes st). is_note c"
  proof -
    have "filter is_note (changes st) = changes st" using that(3) by simp
    then have "commitMessage st = ''Update baselines ('' @
                   string_of_nat (length (filter is_note (changes st))) @ '' change(s))''"
      using that(1) by (simp add: commitMessage_def)
    then show ?thesis using ev that(2) by simp
  qed
  show ?thesis using part1 sub n total by simp
qed

text \<open>
  A run of C10: two failed captures, nothing written; the commit step is called with
  \<open>Update baselines (2 change(s))\<close> and the subject of the notification counts 2.
\<close>

theorem C10_failures_counted_as_changes_witness:
  "events (snd (main demo_env down_cfg Map.empty)) =
     [PageClosed, ContextClosed, BrowserClosed,
      CommitStep ''Update baselines (2 change(s))'',
      Dispatched \<lparr> subject = ''Milltech visual change detected (2)'',
                    body = join [CHR 0x0A] (bodyLines demo_env
                       [Note ''down'' ''CAPTURE FAILED: Timeout 60000ms exceeded'',
                        Note ''gone'' ''CAPTURE FAILED: Timeout 60000ms exceeded''] [] 0),
                    attachments = [] \<rparr>] \<and>
   map subject (notifications (snd (main demo_env down_cfg Map.empty))) =
     [''Milltech visual change detected (2)'']"
  using C10_failures_counted_as_changes [OF down_loop]
  by (simp add: down_run notifications_def)

subsection \<open>The attachment set\<close>

lemma attachPngs_prefix:
  "attachPngs st B fs (atts, n) = Inr (atts', nbytes) \<Longrightarrow>
     \<exists>k \<le> length fs.
        atts' = atts @ map (\<lambda>f. (f, InDiffs f)) (take k fs) \<and>
        nbytes = n + sum_list (map (file_size st) (take k fs)) \<and>
        (0 < k \<longrightarrow> nbytes \<le> B) \<and>
        (k < length fs \<longrightarrow> B < nbytes + file_size st (fs ! k))"
proof (induction fs arbitrary: atts n)
  case Nil
  then show ?case by simp
next
  case (Cons f fs)
  from Cons.prems obtain b where b: "files st (InDiffs f) = Some b"
    by (auto simp: stat_size_def split: option.splits)
  then have sz: "stat_size (InDiffs f) st = Inr (length b)" "file_size st f = length b"
    by (simp_all add: stat_size_def file_size_def)
  show ?case
  proof (cases "B < n + length b")
    case True
    with Cons.prems sz have "atts' = atts" "nbytes = n" by simp_all
    with True sz show ?thesis by (intro exI [of _ 0]) simp
  next
    case False
    with Cons.prems sz have "attachPngs st B fs (atts @ [(f, InDiffs f)], n + length b) = Inr (atts', nbytes)"
      by simp
    from Cons.IH [OF this] obtain k where k: "k \<le> length fs"
      "atts' = (atts @ [(f, InDiffs f)]) @ map (\<lambda>f. (f, InDiffs f)) (take k fs)"
      "nbytes = n + length b + sum_list (map (file_size st) (take k fs))"
      "0 < k \<longrightarrow> nbytes \<le> B"
      "k < length fs \<longrightarrow> B < nbytes + file_size st (fs ! k)"
      by blast
    have "nbytes \<le> B"
    proof (cases k)
      case 0
      with k(3) False show ?thesis by simp
    next
      case (Suc j)
      with k(4) show ?thesis by simp
    qed
    with k sz show ?thesis by (intro exI [of _ "Suc k"]) simp
  qed
qed

lemma notify_attachments:
  assumes "buildAttachments e cfg st = (Inr (atts, nbytes), st1)"
  shows "events (snd (notify e cfg st)) = events st \<or>
         (\<exists>m. events (snd (notify e cfg st)) = events st @ [Dispatched m] \<and> attachments m = atts)"
proof -
  have ev: "events st1 = events st"
    using buildAttachments_state [of e cfg st] assms by simp
  define m where "m = \<lparr> subject = ''Milltech visual change detected ('' @ string_of_nat (length (changes st1)) @ '')'',
              body = join [CHR 0x0A] (bodyLines e (changes st1) atts nbytes),
              attachments = atts \<rparr>"
  have n: "notify e cfg st = sendMailgunEmail e m st1"
    using assms by (simp add: notify_def m_def)
  have "attachments m = atts" by (simp add: m_def)
  then show ?thesis
    using sendMailgunEmail_state [of e m st1] unfolding n ev by auto
qed

text \<open>
  Claim C5, as amended. With \<open>N\<close> files named \<open>*.diff.png\<close> in the listing of the diff
  directory, at most \<open>K\<close> individual images and a budget of \<open>B\<close> bytes: when \<open>N\<close> is 0 there
  is no attachment; otherwise the attachment set is the archive, always, followed by the
  first \<open>k\<close> images in the order of the directory listing, with \<open>k\<close> at most min(N, K). The
  byte count starts at the size of the archive; an image is added only while the count
  stays within \<open>B\<close>, the loop stops at the first image that does not fit and drops it and
  all later ones. So the cumulative size is within \<open>B\<close> whenever an image was added, and
  never more than the larger of \<open>B\<close> and the size of the archive. The notification, when
  dispatched, carries exactly this set.
\<close>

theorem C5_attachment_budget:
  assumes "buildAttachments e cfg st = (Inr (atts, nbytes), st1)"
    and "readdir e (files st) = Some names"
    and "listing = filter (\<lambda>f. endsWith f ''.diff.png'') names"
    and "K = (case attachMaxPngs cfg of None \<Rightarrow> 6 | Some k \<Rightarrow> k)"
    and "B = (case maxAttachmentBytes cfg of None \<Rightarrow> 20000000 | Some b \<Rightarrow> b)"
  shows "(listing = [] \<longrightarrow> atts = [] \<and> nbytes = 0) \<and>
         (listing \<noteq> [] \<longrightarrow>
            (\<exists>k zipSize. k \<le> min (length listing) K \<and>
               atts = (''diffs.zip'', InTmp ''diffs.zip'') # map (\<lambda>f. (f, InDiffs f)) (take k listing) \<and>
               stat_size (InTmp ''diffs.zip'') st1 = Inr zipSize \<and>
               nbytes = zipSize + sum_list (map (file_size st1) (take k listing)) \<and>
               (0 < k \<longrightarrow> nbytes \<le> B) \<and>
               nbytes \<le> max B zipSize \<and>
               (k < min (length listing) K \<longrightarrow> B < nbytes + file_size st1 (listing ! k)))) \<and>
         (events (snd (notify e cfg st)) = events st \<or>
          (\<exists>m. events (snd (notify e cfg st)) = events st @ [Dispatched m] \<and> attachments m = atts))"
proof -
  have empty: "atts = [] \<and> nbytes = 0" if "listing = []"
    using that assms by (simp add: buildAttachments_def Let_def)
  have some: "\<exists>k zipSize. k \<le> min (length listing) K \<and>
               atts = (''diffs.zip'', InTmp ''diffs.zip'') # map (\<lambda>f. (f, InDiffs f)) (take k listing) \<and>
               stat_size (InTmp ''diffs.zip'') st1 = Inr zipSize \<and>
               nbytes = zipSize + sum_list (map (file_size st1) (take k listing)) \<and>
               (0 < k \<longrightarrow> nbytes \<le> B) \<and>
               nbytes \<le> max B zipSize \<and>
               (k < min (length listing) K \<longrightarrow> B < nbytes + file_size st1 (listing ! k))"
    if ne: "listing \<noteq> []"
  proof -
    obtain z where z: "zip_archive e (files st) = Some z"
      using assms ne by (auto simp: buildAttachments_def createZip_def Let_def split: option.splits)
    have st1: "st1 = st \<lparr> files := (files st)(InTmp ''diffs.zip'' \<mapsto> z) \<rparr>"
      using assms ne z
      by (auto simp: buildAttachments_def createZip_def stat_size_def Let_def split: sum.splits)
    have zs: "stat_size (InTmp ''diffs.zip'') st1 = Inr (length z)"
      by (simp add: st1 stat_size_def)
    have a: "attachPngs st1 B (take K listing) ([(''diffs.zip'', InTmp ''diffs.zip'')], length z) = Inr (atts, nbytes)"
      using assms ne z
      by (auto simp: buildAttachments_def createZip_def stat_size_def st1 Let_def split: sum.splits)
    from attachPngs_prefix [OF a] obtain k where k: "k \<le> length (take K listing)"
      "atts = [(''diffs.zip'', InTmp ''diffs.zip'')] @ map (\<lambda>f. (f, InDiffs f)) (take k (take K listing))"
      "nbytes = length z + sum_list (map (file_size st1) (take k (take K listing)))"
      "0 < k \<longrightarrow> nbytes \<le> B"
      "k < length (take K listing) \<longrightarrow> B < nbytes + file_size st1 (take K listing ! k)"
      by blast
    have "k \<le> K" using k(1) by simp
    then have kk: "take k (take K listing) = take k listing"
      by (simp add: min_absorb1)
    have mx: "nbytes \<le> max B (length z)"
    proof (cases k)
      case 0
      with k(3) show ?thesis by simp
    next
      case (Suc j)
      with k(4) show ?thesis by simp
    qed
    show ?thesis
      using k zs mx unfolding kk
      by (intro exI [of _ k] exI [of _ "length z"]) simp
  qed
  show ?thesis
    using empty some notify_attachments [OF assms(1)] by blast
qed

subsection \<open>Concrete runs with changes\<close>

lemma diff_a: "diffPngs demo_env img_1x1 img_1x2 (1 / 10) =
     Inr \<lparr> diffBuf = [1, 2, 0, 0, 0, 0, 255, 0, 0, 255], diffPixels = 1, totalPixels = 2, ratio = Num (1 / 2) \<rparr>"
  by code_simp

lemma diff_b: "diffPngs demo_env img_1x3 img_1x3_new (1 / 10) =
     Inr \<lparr> diffBuf = [1, 3, 0, 0, 0, 0, 0, 0, 0, 0, 255, 0, 0, 255], diffPixels = 1, totalPixels = 3,
           ratio = Num (1 / 3) \<rparr>"
  by code_simp

lemma busy_files_at:
  "busy_files (InBaselines ''a.png'') = Some img_1x1"
  "busy_files (InBaselines ''b.png'') = Some img_1x3"
  "busy_files (InDiffs f) = None"
  by (simp_all add: busy_files_def)

lemma busy_loop:
  "runTargets demo_env busy_cfg (urls busy_cfg) (initial_state busy_files) = (Inr (), busy_state)"
  by (simp add: busy_cfg_def demo_cfg_def processTarget_def compareWithBaseline_def demo_env_fields
      initial_state_def writeFileAtomic_def readFile_def fileExists_def busy_files_at diff_a diff_b
      busy_state_def)

lemma tight_loop:
  "runTargets demo_env tight_cfg (urls tight_cfg) (initial_state busy_files) = (Inr (), busy_state)"
  by (simp add: tight_cfg_def busy_cfg_def demo_cfg_def processTarget_def compareWithBaseline_def demo_env_fields
      initial_state_def writeFileAtomic_def readFile_def fileExists_def busy_files_at diff_a diff_b
      busy_state_def)

lemma busy_state_files:
  "files busy_state (InDiffs ''a.diff.png'') = Some [1, 2, 0, 0, 0, 0, 255, 0, 0, 255]"
  "files busy_state (InDiffs ''b.diff.png'') = Some [1, 3, 0, 0, 0, 0, 0, 0, 0, 0, 255, 0, 0, 255]"
  "changes busy_state = [Diff ''b'' (Num (1 / 3)) 1 3, Diff ''a'' (Num (1 / 2)) 1 2,
                  Note ''down'' ''CAPTURE FAILED: Timeout 60000ms exceeded'']"
  "seededBaselines busy_state = 0"
  "events busy_state = []"
  by (simp_all add: busy_state_def)

lemma busy_attachments:
  assumes "files st = files busy_state"
  shows "buildAttachments demo_env busy_cfg st =
     (Inr ([(''diffs.zip'', InTmp ''diffs.zip''), (''a.diff.png'', InDiffs ''a.diff.png'')], 32),
      st \<lparr> files := (files busy_state)(InTmp ''diffs.zip'' \<mapsto> replicate 22 0) \<rparr>)"
  by (simp add: buildAttachments_def createZip_def stat_size_def demo_env_fields assms busy_state_files
      busy_cfg_def demo_cfg_def endsWith_def Let_def)

lemma tight_attachments:
  assumes "files st = files busy_state"
  shows "buildAttachments demo_env tight_cfg st =
     (Inr ([(''diffs.zip'', InTmp ''diffs.zip'')], 22),
      st \<lparr> files := (files busy_state)(InTmp ''diffs.zip'' \<mapsto> replicate 22 0) \<rparr>)"
  by (simp add: buildAttachments_def createZip_def stat_size_def demo_env_fields assms busy_state_files
      tight_cfg_def busy_cfg_def demo_cfg_def endsWith_def Let_def)

lemma busy_run:
  "fst (main demo_env busy_cfg busy_files) = Inr () \<and>
   changes (snd (main demo_env busy_cfg busy_files)) =
     [Diff ''b'' (Num (1 / 3)) 1 3, Diff ''a'' (Num (1 / 2)) 1 2,
      Note ''down'' ''CAPTURE FAILED: Timeout 60000ms exceeded''] \<and>
   map attachments (notifications (snd (main demo_env busy_cfg busy_files))) =
     [[(''diffs.zip'', InTmp ''diffs.zip''), (''a.diff.png'', InDiffs ''a.diff.png'')]]"
  apply (simp only: main_def busy_loop prod.case sum.case)
  apply (simp add: shutdown_def finishRun_def gitCommitIfNeeded_def notify_def busy_attachments
      sendMailgunEmail_def readFile_def demo_env_fields busy_state_files notifications_def Let_def)
  done

lemma tight_run:
  "fst (main demo_env tight_cfg busy_files) = Inr () \<and>
   map attachments (notifications (snd (main demo_env tight_cfg busy_files))) =
     [[(''diffs.zip'', InTmp ''diffs.zip'')]] \<and>
   map_option length (files (snd (main demo_env tight_cfg busy_files)) (InTmp ''diffs.zip'')) = Some 22"
  apply (simp only: main_def tight_loop prod.case sum.case)
  apply (simp add: shutdown_def finishRun_def gitCommitIfNeeded_def notify_def tight_attachments
      sendMailgunEmail_def readFile_def demo_env_fields busy_state_files notifications_def Let_def)
  done

text \<open>
  A run of C5: two diff images of 10 and 14 bytes, an archive of 22 bytes, \<open>K = 1\<close> and the
  default budget: the archive and the first listed image, 32 bytes.
\<close>

theorem C5_attachment_budget_witness:
  "buildAttachments demo_env busy_cfg busy_state =
     (Inr ([(''diffs.zip'', InTmp ''diffs.zip''), (''a.diff.png'', InDiffs ''a.diff.png'')], 32),
      busy_state \<lparr> files := (files busy_state)(InTmp ''diffs.zip'' \<mapsto> replicate 22 0) \<rparr>) \<and>
   (\<exists>k zipSize. k \<le> 1 \<and> zipSize = 22 \<and> (0 < k \<longrightarrow> (32::nat) \<le> 20000000) \<and>
       [(''diffs.zip'', InTmp ''diffs.zip''), (''a.diff.png'', InDiffs ''a.diff.png'')] =
         (''diffs.zip'', InTmp ''diffs.zip'') # map (\<lambda>f. (f, InDiffs f)) (take k [''a.diff.png'', ''b.diff.png'']))"
proof -
  have b: "buildAttachments demo_env busy_cfg busy_state =
     (Inr ([(''diffs.zip'', InTmp ''diffs.zip''), (''a.diff.png'', InDiffs ''a.diff.png'')], 32),
      busy_state \<lparr> files := (files busy_state)(InTmp ''diffs.zip'' \<mapsto> replicate 22 0) \<rparr>)"
    by (rule busy_attachments) simp
  have r: "readdir demo_env (files busy_state) = Some [''a.diff.png'', ''b.diff.png'']"
    by (simp add: demo_env_fields busy_state_files)
  have l: "[''a.diff.png'', ''b.diff.png''] = filter (\<lambda>f. endsWith f ''.diff.png'') [''a.diff.png'', ''b.diff.png'']"
    by (simp add: endsWith_def)
  have K: "1 = (case attachMaxPngs busy_cfg of None \<Rightarrow> 6 | Some k \<Rightarrow> k)"
    and B: "20000000 = (case maxAttachmentBytes busy_cfg of None \<Rightarrow> 20000000 | Some b \<Rightarrow> b)"
    by (simp_all add: busy_cfg_def demo_cfg_def)
  show ?thesis
    using C5_attachment_budget [OF b r l K B] b
    by (auto simp: stat_size_def)
qed

text \<open>
  The counterexample to C5 as stated, in two runs on the same pages. First run: the
  report lists \<open>b\<close> before \<open>a\<close>, the directory lists \<open>a.diff.png\<close> first, and with \<open>K = 1\<close>
  the one image attached is that of \<open>a\<close>: the order is the directory's, not the report's.
  Second run: the budget is 10 bytes, the archive has 22 bytes and is attached all the
  same: the cumulative size exceeds \<open>B\<close>.
\<close>

theorem C5_order_and_budget_counterexample:
  "changes (snd (main demo_env busy_cfg busy_files)) =
     [Diff ''b'' (Num (1 / 3)) 1 3, Diff ''a'' (Num (1 / 2)) 1 2,
      Note ''down'' ''CAPTURE FAILED: Timeout 60000ms exceeded''] \<and>
   attachMaxPngs busy_cfg = Some 1 \<and>
   map attachments (notifications (snd (main demo_env busy_cfg busy_files))) =
     [[(''diffs.zip'', InTmp ''diffs.zip''), (''a.diff.png'', InDiffs ''a.diff.png'')]] \<and>
   maxAttachmentBytes tight_cfg = Some 10 \<and>
   map attachments (notifications (snd (main demo_env tight_cfg busy_files))) =
     [[(''diffs.zip'', InTmp ''diffs.zip'')]] \<and>
   map_option length (files (snd (main demo_env tight_cfg busy_files)) (InTmp ''diffs.zip'')) = Some 22"
  using busy_run tight_run by (simp add: busy_cfg_def tight_cfg_def)

subsection \<open>The number of notifications\<close>







subsection \<open>A run whose commit step fails\<close>



end
